theory Spec2Isabelle
  imports Complex_Main
begin

section \<open>Shared event schemas (shared/events/schemas.py)\<close>

text \<open>
  Pixel coordinates, confidences and clock readings are Python floats in the source. For the
  tracker, the plate proposer and the PTZ controller they are modelled as exact reals: the
  properties stated of those components are about counters, guards and the order of effects.
  The round trip of a bounding box through its centre and size is an identity between two
  differently rounded expressions; it is stated over the reals and over a model of the
  float arithmetic itself (section "Float arithmetic of the bounding box").
\<close>

datatype VehicleClass = CAR | TRUCK | BUS | MOTORCYCLE | UNKNOWN

record BoundingBox =
  x1 :: real
  y1 :: real
  x2 :: real
  y2 :: real

definition center :: "BoundingBox \<Rightarrow> real \<times> real" where
  "center b = ((x1 b + x2 b) / 2, (y1 b + y2 b) / 2)"

definition width :: "BoundingBox \<Rightarrow> real" where
  "width b = x2 b - x1 b"

definition height :: "BoundingBox \<Rightarrow> real" where
  "height b = y2 b - y1 b"

definition area :: "BoundingBox \<Rightarrow> real" where
  "area b = width b * height b"

section \<open>Tracker (services/vision-service/tracker.py)\<close>

subsection \<open>Track\<close>

text \<open>\<open>deque(maxlen=n).append(v)\<close>: append on the right, drop from the left beyond \<open>n\<close>.\<close>

definition deque_append :: "nat \<Rightarrow> 'a list \<Rightarrow> 'a \<Rightarrow> 'a list" where
  "deque_append n xs v = (let ys = xs @ [v] in drop (length ys - n) ys)"

record Track =
  track_id :: int
  bbox :: BoundingBox
  vehicle_class :: VehicleClass
  confidence :: real
  age :: int
  hits :: int
  time_since_update :: int
  max_history :: nat
  trajectory :: "(real \<times> real) list"
  velocity :: "real \<times> real"

text \<open>\<open>Track.__init__\<close> with the default \<open>max_history = 30\<close>, as the tracker calls it.\<close>

definition Track_init :: "int \<Rightarrow> BoundingBox \<Rightarrow> VehicleClass \<Rightarrow> real \<Rightarrow> Track" where
  "Track_init tid b vc conf =
     \<lparr> track_id = tid, bbox = b, vehicle_class = vc, confidence = conf,
       age = 0, hits = 1, time_since_update = 0, max_history = 30,
       trajectory = deque_append 30 [] (center b), velocity = (0, 0) \<rparr>"

definition Track_update :: "Track \<Rightarrow> BoundingBox \<Rightarrow> real \<Rightarrow> Track" where
  "Track_update t b conf =
     (let c = center b;
          traj = deque_append (max_history t) (trajectory t) c;
          t' = t\<lparr> bbox := b, confidence := conf, hits := hits t + 1,
                  time_since_update := 0, trajectory := traj \<rparr>
      in if length traj \<ge> 2
         then (let prev_center = traj ! (length traj - 2)
               in t'\<lparr> velocity := (fst c - fst prev_center, snd c - snd prev_center) \<rparr>)
         else t')"

definition Track_predict :: "Track \<Rightarrow> Track" where
  "Track_predict t =
     (let t' = t\<lparr> age := age t + 1, time_since_update := time_since_update t + 1 \<rparr>
      in if velocity t \<noteq> (0, 0)
         then (let vx = fst (velocity t); vy = snd (velocity t)
               in t'\<lparr> bbox := \<lparr> x1 = x1 (bbox t) + vx, y1 = y1 (bbox t) + vy,
                                x2 = x2 (bbox t) + vx, y2 = y2 (bbox t) + vy \<rparr> \<rparr>)
         else t')"

subsection \<open>VehicleTracker\<close>

type_synonym detection = "BoundingBox \<times> VehicleClass \<times> real"

text \<open>
  \<open>self.tracks\<close> is a Python dict: iteration follows insertion order, assigning to an existing
  key keeps its place, a new key goes last, \<open>del\<close> keeps the order of the rest.
\<close>

fun dict_set :: "'k \<Rightarrow> 'v \<Rightarrow> ('k \<times> 'v) list \<Rightarrow> ('k \<times> 'v) list" where
  "dict_set k v [] = [(k, v)]"
| "dict_set k v ((k', v') # kvs) =
     (if k' = k then (k, v) # kvs else (k', v') # dict_set k v kvs)"

record VehicleTracker =
  max_age :: int
  min_hits :: int
  iou_threshold :: real
  tracks :: "(int \<times> Track) list"
  next_id :: int

definition VehicleTracker_init :: "int \<Rightarrow> int \<Rightarrow> real \<Rightarrow> VehicleTracker" where
  "VehicleTracker_init ma mh thr =
     \<lparr> max_age = ma, min_hits = mh, iou_threshold = thr, tracks = [], next_id = 1 \<rparr>"

definition calculate_iou :: "BoundingBox \<Rightarrow> BoundingBox \<Rightarrow> real" where
  "calculate_iou bbox1 bbox2 =
     (let ix1 = max (x1 bbox1) (x1 bbox2);
          iy1 = max (y1 bbox1) (y1 bbox2);
          ix2 = min (x2 bbox1) (x2 bbox2);
          iy2 = min (y2 bbox1) (y2 bbox2)
      in if ix2 < ix1 \<or> iy2 < iy1 then 0
         else (let intersection = (ix2 - ix1) * (iy2 - iy1);
                   union = area bbox1 + area bbox2 - intersection
               in if union = 0 then 0 else intersection / union))"

text \<open>
  The inner loop of \<open>_associate_detections\<close> over \<open>enumerate(detections)\<close>; the accumulator is
  \<open>(best_iou, best_det_idx)\<close>, started at \<open>(0.0, -1)\<close>.
\<close>

fun scan_detections ::
  "real \<Rightarrow> BoundingBox \<Rightarrow> nat set \<Rightarrow> (nat \<times> detection) list \<Rightarrow> real \<times> int \<Rightarrow> real \<times> int" where
  "scan_detections thr tb used [] acc = acc"
| "scan_detections thr tb used ((det_idx, d) # ds) (best_iou, best_det_idx) =
     (if det_idx \<in> used then scan_detections thr tb used ds (best_iou, best_det_idx)
      else (let iou = calculate_iou tb (fst d)
            in if iou > best_iou \<and> iou > thr
               then scan_detections thr tb used ds (iou, int det_idx)
               else scan_detections thr tb used ds (best_iou, best_det_idx)))"

definition best_detection :: "real \<Rightarrow> BoundingBox \<Rightarrow> nat set \<Rightarrow> detection list \<Rightarrow> real \<times> int" where
  "best_detection thr tb used dets = scan_detections thr tb used (enumerate 0 dets) (0, -1)"

text \<open>
  The outer loop over \<open>self.tracks.items()\<close>. It returns the tracks (same order, matched ones
  updated), \<open>used_detections\<close>, and the matches in the order they were made: each entry pairs
  the id appended to \<open>matched_track_ids\<close> with the index added to \<open>used_detections\<close> in the
  same iteration.
\<close>

fun match_tracks ::
  "real \<Rightarrow> detection list \<Rightarrow> nat set \<Rightarrow> (int \<times> Track) list
     \<Rightarrow> (int \<times> Track) list \<times> nat set \<times> (int \<times> nat) list" where
  "match_tracks thr dets used [] = ([], used, [])"
| "match_tracks thr dets used ((tid, t) # ts) =
     (let best_det_idx = snd (best_detection thr (bbox t) used dets)
      in if best_det_idx \<ge> 0
         then (let d = dets ! nat best_det_idx;
                   r = match_tracks thr dets (insert (nat best_det_idx) used) ts
               in ((tid, Track_update t (fst d) (snd (snd d))) # fst r,
                   fst (snd r), (tid, nat best_det_idx) # snd (snd r)))
         else (let r = match_tracks thr dets used ts
               in ((tid, t) # fst r, fst (snd r), snd (snd r))))"

text \<open>The second loop of \<open>_associate_detections\<close>: one new track per unclaimed detection.\<close>

fun spawn_tracks ::
  "nat set \<Rightarrow> (nat \<times> detection) list \<Rightarrow> (int \<times> Track) list \<times> int \<Rightarrow> (int \<times> Track) list \<times> int" where
  "spawn_tracks used [] acc = acc"
| "spawn_tracks used ((det_idx, d) # ds) (ts, nid) =
     (if det_idx \<notin> used
      then spawn_tracks used ds
             (dict_set nid (Track_init nid (fst d) (fst (snd d)) (snd (snd d))) ts, nid + 1)
      else spawn_tracks used ds (ts, nid))"

definition associate_detections ::
  "VehicleTracker \<Rightarrow> detection list \<Rightarrow> (int \<times> nat) list \<times> VehicleTracker" where
  "associate_detections s dets =
     (let m = match_tracks (iou_threshold s) dets {} (tracks s);
          sp = spawn_tracks (fst (snd m)) (enumerate 0 dets) (fst m, next_id s)
      in (snd (snd m), s\<lparr> tracks := fst sp, next_id := snd sp \<rparr>))"

definition matched_track_ids :: "(int \<times> nat) list \<Rightarrow> int list" where
  "matched_track_ids ms = map fst ms"

definition remove_dead_tracks :: "VehicleTracker \<Rightarrow> VehicleTracker" where
  "remove_dead_tracks s =
     s\<lparr> tracks := filter (\<lambda>kt. \<not> time_since_update (snd kt) > max_age s) (tracks s) \<rparr>"

definition predict_all :: "VehicleTracker \<Rightarrow> VehicleTracker" where
  "predict_all s = s\<lparr> tracks := map (\<lambda>kt. (fst kt, Track_predict (snd kt))) (tracks s) \<rparr>"

text \<open>\<open>VehicleTracker.update\<close>: the confirmed tracks it returns, and the tracker afterwards.\<close>

definition VehicleTracker_update ::
  "VehicleTracker \<Rightarrow> detection list \<Rightarrow> Track list \<times> VehicleTracker" where
  "VehicleTracker_update s dets =
     (let s1 = predict_all s;
          s2 = (if length dets = 0 then s1 else snd (associate_detections s1 dets));
          s3 = remove_dead_tracks s2
      in (filter (\<lambda>t. hits t \<ge> min_hits s3) (map snd (tracks s3)), s3))"

text \<open>The tracker states a run can reach: the fresh tracker, then one \<open>update\<close> per frame.\<close>

inductive reachable :: "VehicleTracker \<Rightarrow> bool" where
  init: "reachable (VehicleTracker_init ma mh thr)"
| step: "reachable s \<Longrightarrow> reachable (snd (VehicleTracker_update s dets))"

section \<open>Plate proposer (services/vision-service/plate_proposer.py)\<close>

datatype py_error = ZeroDivisionError

record PlateProposer =
  min_plate_height :: real
  target_plate_height :: real
  stability_frames :: int
  stable_tracks :: "int \<rightharpoonup> int"

definition PlateProposer_init :: "real \<Rightarrow> real \<Rightarrow> int \<Rightarrow> PlateProposer" where
  "PlateProposer_init mn tg sf =
     \<lparr> min_plate_height = mn, target_plate_height = tg, stability_frames = sf,
       stable_tracks = Map.empty \<rparr>"

definition estimate_plate_region :: "Track \<Rightarrow> BoundingBox" where
  "estimate_plate_region track =
     (let vehicle_bbox = bbox track;
          plate_height = height vehicle_bbox * (15 / 100);
          plate_width = width vehicle_bbox * (6 / 10);
          plate_x1 = x1 vehicle_bbox + (width vehicle_bbox - plate_width) / 2;
          plate_y1 = y2 vehicle_bbox - (height vehicle_bbox * (25 / 100));
          plate_x2 = plate_x1 + plate_width;
          plate_y2 = plate_y1 + plate_height
      in \<lparr> x1 = plate_x1, y1 = plate_y1, x2 = plate_x2, y2 = plate_y2 \<rparr>)"

text \<open>
  The value of a track's stability counter as \<open>is_ready_for_capture\<close> reads it: a missing
  entry is first set to 0.
\<close>

definition stability :: "PlateProposer \<Rightarrow> int \<Rightarrow> int" where
  "stability p tid = (case stable_tracks p tid of None \<Rightarrow> 0 | Some n \<Rightarrow> n)"

text \<open>
  \<open>is_ready_for_capture\<close> returns \<open>(is_ready, zoom_factor_needed)\<close> or raises on a float
  division by zero; the proposer is returned as the call leaves it in either case.
\<close>

definition is_ready_for_capture ::
  "PlateProposer \<Rightarrow> Track \<Rightarrow> BoundingBox \<Rightarrow> (py_error + bool \<times> real) \<times> PlateProposer" where
  "is_ready_for_capture p track plate_bbox =
     (let current_height = height plate_bbox
      in if current_height < min_plate_height p
         then (if current_height = 0 then (Inl ZeroDivisionError, p)
               else (Inr (False, target_plate_height p / current_height), p))
         else (let tid = track_id track;
                   p' = p\<lparr> stable_tracks := (stable_tracks p)(tid \<mapsto> stability p tid + 1) \<rparr>
               in if stability p' tid < stability_frames p' then (Inr (False, 1), p')
                  else if current_height \<ge> target_plate_height p' then (Inr (True, 1), p')
                  else if current_height = 0 then (Inl ZeroDivisionError, p')
                  else (Inr (False, target_plate_height p' / current_height), p')))"

definition reset_stability :: "PlateProposer \<Rightarrow> int \<Rightarrow> PlateProposer" where
  "reset_stability p tid = p\<lparr> stable_tracks := (stable_tracks p)(tid := None) \<rparr>"

definition cleanup_old_tracks :: "PlateProposer \<Rightarrow> int set \<Rightarrow> PlateProposer" where
  "cleanup_old_tracks p active_track_ids =
     p\<lparr> stable_tracks := stable_tracks p |` active_track_ids \<rparr>"

text \<open>
  The target branch of the main loop (services/vision-service/main.py, \<open>if target:\<close> up to the
  readiness check): on a change of target id the new id's stability is reset, then the plate
  region is estimated and checked. It returns the verdict, \<open>current_target_id\<close> and the
  proposer.
\<close>

definition main_target_step ::
  "int option \<Rightarrow> Track \<Rightarrow> PlateProposer
     \<Rightarrow> (py_error + bool \<times> real) \<times> int option \<times> PlateProposer" where
  "main_target_step current_target_id target p =
     (let changed = (current_target_id \<noteq> Some (track_id target));
          current_target_id' = (if changed then Some (track_id target) else current_target_id);
          p1 = (if changed then reset_stability p (track_id target) else p);
          plate_bbox = estimate_plate_region target;
          r = is_ready_for_capture p1 target plate_bbox
      in (fst r, current_target_id', snd r))"

section \<open>PTZ client (services/ptz-controller/onvif_client.py)\<close>

text \<open>
  The camera is outside the program. What the client sends to it is recorded in \<open>device_log\<close>,
  one entry per request that reaches the device, with the device's reply: \<open>Accepted\<close> when the
  ONVIF call returns, \<open>Fault\<close> when it raises the \<open>Fault\<close> the client catches. The clock
  readings of \<open>time.time()\<close> and the reply are inputs of each call.
\<close>

datatype device_command =
    AbsoluteMove real real real real
  | RelativeMove real real real real
  | GotoPreset string

datatype device_reply = Accepted | Fault

record PTZClient =
  last_move_time :: real
  move_rate_limit_s :: real
  device_log :: "(device_command \<times> device_reply) list"

definition PTZClient_init :: PTZClient where
  "PTZClient_init = \<lparr> last_move_time = 0, move_rate_limit_s = 2, device_log = [] \<rparr>"

text \<open>
  The environment of one client command: the clock read by \<open>_check_rate_limit\<close>, the clock
  read after the request was sent, and the device's reply.
\<close>

record device_env =
  t_check :: real
  t_sent :: real
  reply :: device_reply

definition check_rate_limit :: "real \<Rightarrow> PTZClient \<Rightarrow> bool" where
  "check_rate_limit current_time c =
     (let elapsed = current_time - last_move_time c
      in if elapsed < move_rate_limit_s c then False else True)"

definition send_command :: "device_env \<Rightarrow> device_command \<Rightarrow> PTZClient \<Rightarrow> bool \<times> PTZClient" where
  "send_command e cmd c =
     (case reply e of
        Accepted \<Rightarrow>
          (True, c\<lparr> last_move_time := t_sent e, device_log := device_log c @ [(cmd, Accepted)] \<rparr>)
      | Fault \<Rightarrow> (False, c\<lparr> device_log := device_log c @ [(cmd, Fault)] \<rparr>))"

definition absolute_move ::
  "device_env \<Rightarrow> real \<Rightarrow> real \<Rightarrow> real \<Rightarrow> real \<Rightarrow> PTZClient \<Rightarrow> bool \<times> PTZClient" where
  "absolute_move e pan tilt zoom speed c =
     (if \<not> check_rate_limit (t_check e) c then (False, c)
      else send_command e
             (AbsoluteMove (max (-1) (min 1 pan)) (max (-1) (min 1 tilt)) (max 0 (min 1 zoom)) speed) c)"

definition relative_move ::
  "device_env \<Rightarrow> real \<Rightarrow> real \<Rightarrow> real \<Rightarrow> real \<Rightarrow> PTZClient \<Rightarrow> bool \<times> PTZClient" where
  "relative_move e pan tilt zoom speed c =
     (if \<not> check_rate_limit (t_check e) c then (False, c)
      else send_command e
             (RelativeMove (max (-1) (min 1 pan)) (max (-1) (min 1 tilt)) (max (-1) (min 1 zoom)) speed) c)"

definition goto_preset :: "device_env \<Rightarrow> string \<Rightarrow> PTZClient \<Rightarrow> bool \<times> PTZClient" where
  "goto_preset e preset_token c =
     (if \<not> check_rate_limit (t_check e) c then (False, c)
      else send_command e (GotoPreset preset_token) c)"

section \<open>Preset manager (services/ptz-controller/preset_manager.py)\<close>

text \<open>Python's \<open>str\<close> on an int: decimal digits, with a minus sign when negative.\<close>

definition digit_char :: "nat \<Rightarrow> char" where
  "digit_char d =
     (if d = 0 then CHR ''0'' else if d = 1 then CHR ''1'' else if d = 2 then CHR ''2''
      else if d = 3 then CHR ''3'' else if d = 4 then CHR ''4'' else if d = 5 then CHR ''5''
      else if d = 6 then CHR ''6'' else if d = 7 then CHR ''7'' else if d = 8 then CHR ''8''
      else CHR ''9'')"

fun str_nat :: "nat \<Rightarrow> string" where
  "str_nat n = (if n < 10 then [digit_char n] else str_nat (n div 10) @ [digit_char (n mod 10)])"

declare str_nat.simps [simp del]

definition str_int :: "int \<Rightarrow> string" where
  "str_int i = (if i < 0 then CHR ''-'' # str_nat (nat (- i)) else str_nat (nat i))"

record Preset =
  token :: string
  name :: string
  preset_pan :: real
  preset_tilt :: real
  preset_zoom :: real

text \<open>
  The manager and the controller hold the same \<open>PTZClient\<close> object; the manager's operations
  therefore take the client and return it.
\<close>

record PresetManager =
  presets :: "Preset list"
  current_preset_idx :: nat
  idle_enabled :: bool
  idle_timeout_s :: real
  default_preset_id :: int
  sweep_enabled :: bool
  sweep_interval_s :: real
  last_activity_time :: real
  is_idle :: bool

definition mark_activity :: "real \<Rightarrow> PresetManager \<Rightarrow> PresetManager" where
  "mark_activity now pm =
     (let pm' = pm\<lparr> last_activity_time := now \<rparr>
      in if is_idle pm' then pm'\<lparr> is_idle := False \<rparr> else pm')"

definition goto_preset_by_id ::
  "device_env \<Rightarrow> real \<Rightarrow> int \<Rightarrow> PresetManager \<Rightarrow> PTZClient \<Rightarrow> bool \<times> PresetManager \<times> PTZClient" where
  "goto_preset_by_id e t_mark preset_id pm c =
     (case find (\<lambda>p. token p = str_int preset_id) (presets pm) of
        None \<Rightarrow> (False, pm, c)
      | Some preset \<Rightarrow>
          (let r = goto_preset e (str_int preset_id) c
           in if fst r then (True, mark_activity t_mark pm, snd r) else (False, pm, snd r)))"

definition next_preset ::
  "device_env \<Rightarrow> PresetManager \<Rightarrow> PTZClient \<Rightarrow> bool \<times> PresetManager \<times> PTZClient" where
  "next_preset e pm c =
     (if presets pm = [] then (False, pm, c)
      else (let idx = (current_preset_idx pm + 1) mod length (presets pm);
                pm' = pm\<lparr> current_preset_idx := idx \<rparr>;
                r = goto_preset e (token (presets pm' ! idx)) c
            in (fst r, pm', snd r)))"

text \<open>
  One iteration of \<open>_idle_monitor_loop\<close>, run without interleaving. Its inputs are the clock
  read at the top, the environment of the return-to-preset command, the clock read by
  \<open>mark_activity\<close>, and the environment of the sweep command. It returns how long the loop
  sleeps afterwards, and the manager and client.
\<close>

record tick_env =
  current_time :: real
  return_env :: device_env
  t_activity :: real
  sweep_env :: device_env

definition idle_monitor_tick ::
  "tick_env \<Rightarrow> PresetManager \<Rightarrow> PTZClient \<Rightarrow> real \<times> PresetManager \<times> PTZClient" where
  "idle_monitor_tick e pm c =
     (let elapsed_since_activity = current_time e - last_activity_time pm;
          st = (if idle_enabled pm \<and> elapsed_since_activity > idle_timeout_s pm
                then (if \<not> is_idle pm
                      then (let pm' = pm\<lparr> is_idle := True \<rparr>
                            in if default_preset_id pm' \<noteq> 0
                               then snd (goto_preset_by_id (return_env e) (t_activity e)
                                           (default_preset_id pm') pm' c)
                               else (pm', c))
                      else (pm, c))
                else (pm, c))
      in if sweep_enabled (fst st) \<and> is_idle (fst st)
         then (sweep_interval_s (fst st), snd (next_preset (sweep_env e) (fst st) (snd st)))
         else (1, st))"

section \<open>PTZ controller (services/ptz-controller/controller.py)\<close>

record PTZController =
  ptz :: PTZClient
  preset_mgr :: PresetManager
  hysteresis_pixels :: real
  pan_speed :: real
  tilt_speed :: real
  zoom_step :: real
  last_target_position :: "(real \<times> real) option"
  current_zoom :: real

definition PTZController_init ::
  "PTZClient \<Rightarrow> PresetManager \<Rightarrow> real \<Rightarrow> real \<Rightarrow> real \<Rightarrow> real \<Rightarrow> PTZController" where
  "PTZController_init ptz_client preset_manager hyst ps ts zs =
     \<lparr> ptz = ptz_client, preset_mgr = preset_manager, hysteresis_pixels = hyst,
       pan_speed = ps, tilt_speed = ts, zoom_step = zs,
       last_target_position = None, current_zoom = 0 \<rparr>"

definition within_hysteresis :: "PTZController \<Rightarrow> real \<Rightarrow> real \<Rightarrow> bool" where
  "within_hysteresis k target_x target_y =
     (case last_target_position k of
        None \<Rightarrow> False
      | Some (last_x, last_y) \<Rightarrow> \<bar>target_x - last_x\<bar> < hysteresis_pixels k
                                 \<and> \<bar>target_y - last_y\<bar> < hysteresis_pixels k)"

text \<open>
  \<open>point_to_target\<close>: the frame size is an int in the source, so both divisions by it raise
  when it is 0.
\<close>

definition point_to_target ::
  "device_env \<Rightarrow> real \<Rightarrow> real \<Rightarrow> real \<Rightarrow> int \<Rightarrow> int \<Rightarrow> PTZController
     \<Rightarrow> (py_error + bool) \<times> PTZController" where
  "point_to_target e t_mark target_x target_y frame_width frame_height k =
     (let center_x = real_of_int frame_width / 2;
          center_y = real_of_int frame_height / 2;
          offset_x = target_x - center_x;
          offset_y = target_y - center_y
      in if within_hysteresis k target_x target_y then (Inr False, k)
         else if frame_width = 0 \<or> frame_height = 0 then (Inl ZeroDivisionError, k)
         else (let pan_offset = offset_x / real_of_int frame_width;
                   tilt_offset = - offset_y / real_of_int frame_height;
                   r = relative_move e pan_offset tilt_offset 0 (pan_speed k) (ptz k)
               in if fst r
                  then (Inr True, k\<lparr> ptz := snd r,
                                     last_target_position := Some (target_x, target_y),
                                     preset_mgr := mark_activity t_mark (preset_mgr k) \<rparr>)
                  else (Inr False, k\<lparr> ptz := snd r \<rparr>)))"

definition zoom_to_target ::
  "device_env \<Rightarrow> real \<Rightarrow> real \<Rightarrow> real \<Rightarrow> PTZController \<Rightarrow> bool \<times> PTZController" where
  "zoom_to_target e t_mark target_height desired_height k =
     (if target_height \<le> 0 then (False, k)
      else (let zoom_factor = desired_height / target_height
            in case (if zoom_factor > 12 / 10 then Some (zoom_step k)
                     else if zoom_factor < 8 / 10 then Some (- zoom_step k)
                     else None) of
                 None \<Rightarrow> (False, k)
               | Some zoom_change \<Rightarrow>
                   (let new_zoom = max 0 (min 1 (current_zoom k + zoom_change));
                        r = relative_move e 0 0 zoom_change (3 / 10) (ptz k)
                    in if fst r
                       then (True, k\<lparr> ptz := snd r, current_zoom := new_zoom,
                                      preset_mgr := mark_activity t_mark (preset_mgr k) \<rparr>)
                       else (False, k\<lparr> ptz := snd r \<rparr>))))"

section \<open>Float arithmetic of the bounding box (shared/events/schemas.py)\<close>

text \<open>
  A Python float is an IEEE 754 binary64 number. A finite one is \<open>m * 2^e\<close> with integers
  \<open>m\<close>, \<open>e\<close> and \<open>|m| < 2^53\<close>; it is written here as the pair \<open>(m, e)\<close>, and
  \<open>float_value\<close> is the number it stands for. \<open>+\<close> and \<open>-\<close> return the exact result rounded
  to 53 significant bits, ties to the even neighbour; \<open>x / 2\<close> is exact; \<open>==\<close> compares the
  numbers. Overflow, subnormal numbers, infinities and NaN are outside the model: the exponent
  is unbounded.
\<close>

type_synonym pyfloat = "int \<times> int"

text \<open>\<open>int.bit_length\<close>: the number of binary digits of a positive integer.\<close>

function bit_length :: "int \<Rightarrow> nat" where
  "bit_length m = (if m \<le> 0 then 0 else Suc (bit_length (m div 2)))"
  by pat_completeness auto
termination
  by (relation "measure nat") auto

declare bit_length.simps [simp del]

text \<open>The integer nearest to \<open>m / 2^k\<close>, a tie going to the even one.\<close>

definition round_shift :: "int \<Rightarrow> nat \<Rightarrow> int" where
  "round_shift m k =
     (if k = 0 then m
      else (let q = m div 2 ^ k; r = m mod 2 ^ k; half = 2 ^ (k - 1)
            in if r < half then q
               else if r > half then q + 1
               else if even q then q else q + 1))"

definition fl_round :: "pyfloat \<Rightarrow> pyfloat" where
  "fl_round x =
     (let n = bit_length \<bar>fst x\<bar>
      in if n \<le> 53 then x else (round_shift (fst x) (n - 53), snd x + int (n - 53)))"

text \<open>The mantissa of \<open>x\<close> at the smaller exponent \<open>e\<close>: \<open>x = aligned x e * 2^e\<close>.\<close>

definition aligned :: "pyfloat \<Rightarrow> int \<Rightarrow> int" where
  "aligned x e = fst x * 2 ^ nat (snd x - e)"

definition float_add :: "pyfloat \<Rightarrow> pyfloat \<Rightarrow> pyfloat" where
  "float_add x y = (let e = min (snd x) (snd y) in fl_round (aligned x e + aligned y e, e))"

definition float_sub :: "pyfloat \<Rightarrow> pyfloat \<Rightarrow> pyfloat" where
  "float_sub x y = (let e = min (snd x) (snd y) in fl_round (aligned x e - aligned y e, e))"

definition float_half :: "pyfloat \<Rightarrow> pyfloat" where
  "float_half x = (fst x, snd x - 1)"

definition float_eq :: "pyfloat \<Rightarrow> pyfloat \<Rightarrow> bool" where
  "float_eq x y = (let e = min (snd x) (snd y) in aligned x e = aligned y e)"

definition float_value :: "pyfloat \<Rightarrow> real" where
  "float_value x = real_of_int (fst x) * 2 powi snd x"

text \<open>
  \<open>BoundingBox\<close> with its float fields, and its properties \<open>center\<close>, \<open>width\<close> and \<open>height\<close>
  computed as the source computes them.
\<close>

record FloatBox =
  fx1 :: pyfloat
  fy1 :: pyfloat
  fx2 :: pyfloat
  fy2 :: pyfloat

definition float_center :: "FloatBox \<Rightarrow> pyfloat \<times> pyfloat" where
  "float_center b =
     (float_half (float_add (fx1 b) (fx2 b)), float_half (float_add (fy1 b) (fy2 b)))"

definition float_width :: "FloatBox \<Rightarrow> pyfloat" where
  "float_width b = float_sub (fx2 b) (fx1 b)"

definition float_height :: "FloatBox \<Rightarrow> pyfloat" where
  "float_height b = float_sub (fy2 b) (fy1 b)"

section \<open>Predicates used to state the properties\<close>

text \<open>
  The detection indices claimed by the matches made before the \<open>p\<close>-th one: the contents of
  \<open>used_detections\<close> when the \<open>p\<close>-th match was made.
\<close>

definition claimed_before :: "(int \<times> nat) list \<Rightarrow> nat \<Rightarrow> nat set" where
  "claimed_before ms p = snd ` set (take p ms)"

text \<open>The dict of tracks lists its ids in strictly ascending order, all below \<open>next_id\<close>.\<close>

definition ids_ascending :: "(int \<times> Track) list \<Rightarrow> int \<Rightarrow> bool" where
  "ids_ascending ts nid \<longleftrightarrow> sorted_wrt (<) (map fst ts) \<and> (\<forall>k \<in> set (map fst ts). k < nid)"

definition track_ok :: "Track \<Rightarrow> bool" where
  "track_ok t \<longleftrightarrow> 1 \<le> hits t \<and> hits t \<le> age t + 1 \<and> 0 \<le> time_since_update t"

section \<open>Scenario inputs\<close>

definition BoundingBox_init :: "real \<Rightarrow> real \<Rightarrow> real \<Rightarrow> real \<Rightarrow> BoundingBox" where
  "BoundingBox_init a b c d = \<lparr> x1 = a, y1 = b, x2 = c, y2 = d \<rparr>"

text \<open>
  A single car seen in two consecutive frames and then missed once
  (\<open>max_age = 30\<close>, \<open>min_hits = 2\<close>, \<open>iou_threshold = 0.3\<close>).
\<close>

definition single_car_frame1 :: "Track list \<times> VehicleTracker" where
  "single_car_frame1 =
     VehicleTracker_update (VehicleTracker_init 30 2 (3 / 10))
       [(BoundingBox_init 100 100 300 300, CAR, 9 / 10)]"

definition single_car_frame2 :: "Track list \<times> VehicleTracker" where
  "single_car_frame2 =
     VehicleTracker_update (snd single_car_frame1)
       [(BoundingBox_init 110 100 310 300, CAR, 9 / 10)]"

definition single_car_frame3 :: "Track list \<times> VehicleTracker" where
  "single_car_frame3 = VehicleTracker_update (snd single_car_frame2) []"

text \<open>Two vehicles side by side, then both detected again five pixels to the right.\<close>

definition two_car_tracker :: VehicleTracker where
  "two_car_tracker =
     snd (VehicleTracker_update (VehicleTracker_init 30 2 (3 / 10))
            [(BoundingBox_init 0 0 50 50, CAR, 9 / 10),
             (BoundingBox_init 100 0 150 50, TRUCK, 8 / 10)])"

definition two_car_detections :: "detection list" where
  "two_car_detections =
     [(BoundingBox_init 5 0 55 50, CAR, 9 / 10),
      (BoundingBox_init 105 0 155 50, TRUCK, 8 / 10)]"

text \<open>
  The capture-readiness scenario: \<open>min_plate_height_pixels = 30\<close>, \<open>target_plate_height = 60\<close>,
  \<open>stability_frames = 3\<close>, and a vehicle box of height 400, whose estimated plate is 60 high.
\<close>

definition proposer0 :: PlateProposer where
  "proposer0 = PlateProposer_init 30 60 3"

definition car1 :: Track where
  "car1 = Track_init 1 (BoundingBox_init 100 100 300 500) CAR (9 / 10)"

definition car2 :: Track where
  "car2 = Track_init 2 (BoundingBox_init 400 100 600 500) CAR (9 / 10)"

definition small_plate :: BoundingBox where
  "small_plate = BoundingBox_init 140 400 260 420"

definition capture_call ::
  "PlateProposer \<Rightarrow> Track \<Rightarrow> (py_error + bool \<times> real) \<times> PlateProposer" where
  "capture_call p t = is_ready_for_capture p t (estimate_plate_region t)"

definition proposer1 :: PlateProposer where
  "proposer1 = snd (capture_call proposer0 car1)"

definition proposer2 :: PlateProposer where
  "proposer2 = snd (capture_call proposer1 car1)"

definition proposer3 :: PlateProposer where
  "proposer3 = snd (capture_call proposer2 car1)"

text \<open>
  A camera with two presets, idle return to preset 2 after one second, and a controller with
  \<open>hysteresis_pixels = 50\<close> on a 1280 x 720 frame.
\<close>

definition two_presets :: "Preset list" where
  "two_presets =
     [\<lparr> token = ''1'', name = ''Gate'', preset_pan = 0, preset_tilt = 0, preset_zoom = 0 \<rparr>,
      \<lparr> token = ''2'', name = ''Road'', preset_pan = 1 / 2, preset_tilt = 0, preset_zoom = 0 \<rparr>]"

definition idle_manager :: PresetManager where
  "idle_manager =
     \<lparr> presets = two_presets, current_preset_idx = 0, idle_enabled = True, idle_timeout_s = 1,
       default_preset_id = 2, sweep_enabled = True, sweep_interval_s = 60,
       last_activity_time = 1000, is_idle = False \<rparr>"

definition idle_tick_env :: tick_env where
  "idle_tick_env =
     \<lparr> current_time = 1001 + 2 / 10,
       return_env = \<lparr> t_check = 1001 + 2 / 10, t_sent = 1001 + 3 / 10, reply = Accepted \<rparr>,
       t_activity = 1001 + 3 / 10,
       sweep_env = \<lparr> t_check = 1001 + 3 / 10, t_sent = 1001 + 4 / 10, reply = Accepted \<rparr> \<rparr>"

definition after_first_tick :: "PresetManager \<times> PTZClient" where
  "after_first_tick = snd (idle_monitor_tick idle_tick_env idle_manager PTZClient_init)"

text \<open>A second tick 2.2 s later, with no command in between.\<close>

definition idle_tick_env2 :: tick_env where
  "idle_tick_env2 =
     \<lparr> current_time = 1003 + 4 / 10,
       return_env = \<lparr> t_check = 1003 + 4 / 10, t_sent = 1003 + 5 / 10, reply = Accepted \<rparr>,
       t_activity = 1003 + 5 / 10,
       sweep_env = \<lparr> t_check = 1003 + 5 / 10, t_sent = 1003 + 6 / 10, reply = Accepted \<rparr> \<rparr>"

definition after_second_tick :: "PresetManager \<times> PTZClient" where
  "after_second_tick =
     snd (idle_monitor_tick idle_tick_env2 (fst after_first_tick) (snd after_first_tick))"

definition controller0 :: PTZController where
  "controller0 = PTZController_init PTZClient_init idle_manager 50 (1 / 2) (1 / 2) (1 / 10)"

definition env_at :: "real \<Rightarrow> device_env" where
  "env_at t = \<lparr> t_check = t, t_sent = t, reply = Accepted \<rparr>"

definition controller1 :: PTZController where
  "controller1 = snd (point_to_target (env_at 1000) 1000 640 360 1280 720 controller0)"

text \<open>
  Two boxes with float fields: one on the pixel grid, (100, 100, 300, 300), and one with
  \<open>x1 = 0.1\<close> and \<open>x2 = 0.3\<close>, which as floats are \<open>3602879701896397 * 2^-55\<close> and
  \<open>5404319552844595 * 2^-54\<close>.
\<close>

definition grid_box :: FloatBox where
  "grid_box = \<lparr> fx1 = (100, 0), fy1 = (100, 0), fx2 = (300, 0), fy2 = (300, 0) \<rparr>"

definition tenth_box :: FloatBox where
  "tenth_box = \<lparr> fx1 = (3602879701896397, -55), fy1 = (0, 0),
                  fx2 = (5404319552844595, -54), fy2 = (1, 0) \<rparr>"

section \<open>Tracker: shape of the track dict\<close>

lemma match_tracks_keys: "map fst (fst (match_tracks thr dets used ts)) = map fst ts"
  by (induction ts arbitrary: used) (auto simp: Let_def)

lemma dict_set_fresh: "k \<notin> fst ` set kvs \<Longrightarrow> dict_set k v kvs = kvs @ [(k, v)]"
  by (induction kvs) auto

lemma dict_set_subset: "set (dict_set k v kvs) \<subseteq> insert (k, v) (set kvs)"
  by (induction kvs) (auto split: if_splits)

lemma spawn_tracks_ids:
  "ids_ascending ts nid \<Longrightarrow>
     ids_ascending (fst (spawn_tracks used ds (ts, nid))) (snd (spawn_tracks used ds (ts, nid)))"
proof (induction ds arbitrary: ts nid)
  case Nil
  then show ?case by simp
next
  case (Cons p ds)
  obtain i d where p: "p = (i, d)" by (cases p)
  show ?case
  proof (cases "i \<in> used")
    case True
    with Cons p show ?thesis by simp
  next
    case False
    let ?t = "Track_init nid (fst d) (fst (snd d)) (snd (snd d))"
    have fresh: "nid \<notin> fst ` set ts"
      using Cons.prems by (auto simp: ids_ascending_def)
    have "ids_ascending (ts @ [(nid, ?t)]) (nid + 1)"
      using Cons.prems by (auto simp: ids_ascending_def sorted_wrt_append)
    then have "ids_ascending (dict_set nid ?t ts) (nid + 1)"
      using dict_set_fresh [OF fresh] by simp
    from Cons.IH [OF this] False p show ?thesis by simp
  qed
qed

lemma update_ids:
  assumes "ids_ascending (tracks s) (next_id s)"
  shows "ids_ascending (tracks (snd (VehicleTracker_update s dets)))
           (next_id (snd (VehicleTracker_update s dets)))"
proof -
  let ?s1 = "predict_all s"
  have a1: "ids_ascending (tracks ?s1) (next_id ?s1)"
    using assms by (simp add: predict_all_def ids_ascending_def comp_def)
  let ?s2 = "if length dets = 0 then ?s1 else snd (associate_detections ?s1 dets)"
  have a2: "ids_ascending (tracks ?s2) (next_id ?s2)"
  proof (cases "length dets = 0")
    case True
    with a1 show ?thesis by simp
  next
    case False
    let ?m = "match_tracks (iou_threshold ?s1) dets {} (tracks ?s1)"
    have "ids_ascending (fst ?m) (next_id ?s1)"
      using a1 by (simp add: ids_ascending_def match_tracks_keys)
    from spawn_tracks_ids [OF this] False show ?thesis
      by (simp add: associate_detections_def Let_def)
  qed
  have "ids_ascending (tracks (remove_dead_tracks ?s2)) (next_id (remove_dead_tracks ?s2))"
    using a2 by (auto simp: remove_dead_tracks_def ids_ascending_def sorted_wrt_map sorted_wrt_filter)
  then show ?thesis by (simp add: VehicleTracker_update_def Let_def)
qed

lemma reachable_ids: "reachable s \<Longrightarrow> ids_ascending (tracks s) (next_id s)"
proof (induction rule: reachable.induct)
  case (init ma mh thr)
  show ?case by (simp add: VehicleTracker_init_def ids_ascending_def)
next
  case (step s dets)
  from step.IH show ?case by (rule update_ids)
qed

section \<open>Tracker: the greedy scan\<close>

lemma scan_detections_spec:
  "scan_detections thr tb used (enumerate n ds) (b0, j0) = (b, j) \<Longrightarrow>
     b0 \<le> b \<and>
     (\<forall>i<length ds. n + i \<notin> used \<longrightarrow> thr < calculate_iou tb (fst (ds ! i))
          \<longrightarrow> calculate_iou tb (fst (ds ! i)) \<le> b) \<and>
     ((b, j) = (b0, j0) \<or>
      (\<exists>i<length ds. j = int (n + i) \<and> n + i \<notin> used \<and> b = calculate_iou tb (fst (ds ! i))
          \<and> thr < b \<and> b0 < b
          \<and> (\<forall>i'<i. n + i' \<notin> used \<longrightarrow> calculate_iou tb (fst (ds ! i')) < b)))"
proof (induction ds arbitrary: n b0 j0)
  case Nil
  then show ?case by simp
next
  case (Cons d ds)
  let ?iou = "calculate_iou tb (fst d)"
  consider (claimed) "n \<in> used"
    | (better) "n \<notin> used" "?iou > b0 \<and> ?iou > thr"
    | (skipped) "n \<notin> used" "\<not> (?iou > b0 \<and> ?iou > thr)"
    by blast
  then show ?case
  proof cases
    case claimed
    with Cons.prems have "scan_detections thr tb used (enumerate (Suc n) ds) (b0, j0) = (b, j)"
      by simp
    from Cons.IH [OF this] claimed show ?thesis
      by (auto simp: All_less_Suc2 Ex_less_Suc2 ac_simps)
  next
    case better
    with Cons.prems have "scan_detections thr tb used (enumerate (Suc n) ds) (?iou, int n) = (b, j)"
      by (simp add: Let_def)
    from Cons.IH [OF this] better show ?thesis
      by (auto simp: All_less_Suc2 Ex_less_Suc2 ac_simps)
  next
    case skipped
    with Cons.prems have "scan_detections thr tb used (enumerate (Suc n) ds) (b0, j0) = (b, j)"
      by (auto simp: Let_def)
    from Cons.IH [OF this] skipped show ?thesis
      by (auto simp: All_less_Suc2 Ex_less_Suc2 ac_simps)
  qed
qed

lemma best_detection_spec:
  assumes "best_detection thr tb used dets = (b, j)" and "0 \<le> j"
  shows "nat j < length dets \<and> nat j \<notin> used
       \<and> b = calculate_iou tb (fst (dets ! nat j)) \<and> thr < b
       \<and> (\<forall>i<length dets. i \<notin> used \<longrightarrow>
             calculate_iou tb (fst (dets ! i)) \<le> b
             \<and> (calculate_iou tb (fst (dets ! i)) = b \<longrightarrow> nat j \<le> i))"
proof -
  from assms(1) have "scan_detections thr tb used (enumerate 0 dets) (0, -1) = (b, j)"
    by (simp add: best_detection_def)
  from scan_detections_spec [OF this] assms(2)
  obtain i where i: "i < length dets" "j = int i" "i \<notin> used"
      "b = calculate_iou tb (fst (dets ! i))" "thr < b"
      "\<forall>i'<i. i' \<notin> used \<longrightarrow> calculate_iou tb (fst (dets ! i')) < b"
    and le: "\<forall>i<length dets. i \<notin> used \<longrightarrow> thr < calculate_iou tb (fst (dets ! i))
          \<longrightarrow> calculate_iou tb (fst (dets ! i)) \<le> b"
    by auto
  have "calculate_iou tb (fst (dets ! k)) \<le> b
        \<and> (calculate_iou tb (fst (dets ! k)) = b \<longrightarrow> i \<le> k)"
    if "k < length dets" "k \<notin> used" for k
  proof
    show "calculate_iou tb (fst (dets ! k)) \<le> b"
      using le that i(5) by (cases "thr < calculate_iou tb (fst (dets ! k))") auto
    show "calculate_iou tb (fst (dets ! k)) = b \<longrightarrow> i \<le> k"
      using i(6) that by (metis not_le_imp_less order_less_irrefl)
  qed
  with i show ?thesis by simp
qed

lemma match_tracks_spec:
  "match_tracks thr dets used ts = (ts', used', ms) \<Longrightarrow>
     used' = used \<union> snd ` set ms \<and>
     distinct (map snd ms) \<and> snd ` set ms \<inter> used = {} \<and>
     (\<forall>j \<in> snd ` set ms. j < length dets) \<and>
     set (map fst ms) \<subseteq> set (map fst ts) \<and>
     (sorted_wrt (<) (map fst ts) \<longrightarrow> sorted_wrt (<) (map fst ms)) \<and>
     (\<forall>p<length ms. \<exists>t. (fst (ms ! p), t) \<in> set ts \<and>
         snd (ms ! p) \<notin> used \<union> claimed_before ms p \<and>
         thr < calculate_iou (bbox t) (fst (dets ! snd (ms ! p))) \<and>
         (\<forall>i<length dets. i \<notin> used \<union> claimed_before ms p \<longrightarrow>
            calculate_iou (bbox t) (fst (dets ! i)) \<le> calculate_iou (bbox t) (fst (dets ! snd (ms ! p)))
            \<and> (calculate_iou (bbox t) (fst (dets ! i)) = calculate_iou (bbox t) (fst (dets ! snd (ms ! p)))
                 \<longrightarrow> snd (ms ! p) \<le> i)))"
proof (induction ts arbitrary: used ts' used' ms)
  case Nil
  then show ?case by simp
next
  case (Cons kt ts)
  obtain tid t where kt: "kt = (tid, t)" by (cases kt)
  obtain b j where bd: "best_detection thr (bbox t) used dets = (b, j)"
    by (cases "best_detection thr (bbox t) used dets")
  show ?case
  proof (cases "0 \<le> j")
    case False
    obtain ts1 used1 ms1 where r: "match_tracks thr dets used ts = (ts1, used1, ms1)"
      by (cases "match_tracks thr dets used ts") auto
    with Cons.prems kt bd False have eq: "ms = ms1" "used' = used1"
      by (auto simp: Let_def)
    from Cons.IH [OF r] show ?thesis
      unfolding eq kt by (auto 0 3)
  next
    case True
    let ?j = "nat j"
    note sp = best_detection_spec [OF bd True]
    obtain ts1 used1 ms1 where r: "match_tracks thr dets (insert ?j used) ts = (ts1, used1, ms1)"
      by (cases "match_tracks thr dets (insert ?j used) ts") auto
    with Cons.prems kt bd True have eq: "ms = (tid, ?j) # ms1" "used' = used1"
      by (auto simp: Let_def)
    note IH = Cons.IH [OF r]
    have cb0: "claimed_before ((tid, ?j) # ms1) 0 = {}"
      by (simp add: claimed_before_def)
    have cbS: "insert ?j used \<union> claimed_before ms1 p = used \<union> claimed_before ((tid, ?j) # ms1) (Suc p)" for p
      by (simp add: claimed_before_def)
    have 1: "used' = used \<union> snd ` set ms" using IH eq by auto
    have 2: "distinct (map snd ms)" using IH eq by auto
    have 3: "snd ` set ms \<inter> used = {}" using IH eq sp by auto
    have 4: "\<forall>j \<in> snd ` set ms. j < length dets" using IH eq sp by auto
    have 5: "set (map fst ms) \<subseteq> set (map fst (kt # ts))" using IH eq kt by auto
    have 6: "sorted_wrt (<) (map fst (kt # ts)) \<longrightarrow> sorted_wrt (<) (map fst ms)"
    proof
      assume srt: "sorted_wrt (<) (map fst (kt # ts))"
      from IH have sub: "set (map fst ms1) \<subseteq> set (map fst ts)"
        and imp: "sorted_wrt (<) (map fst ts) \<longrightarrow> sorted_wrt (<) (map fst ms1)"
        by blast+
      from srt kt have "\<forall>k \<in> set (map fst ts). tid < k" and "sorted_wrt (<) (map fst ts)"
        by simp_all
      with sub imp show "sorted_wrt (<) (map fst ms)"
        unfolding eq by (auto simp: subset_iff) force
    qed
    have 7: "\<exists>t'. (fst (ms ! p), t') \<in> set (kt # ts) \<and>
         snd (ms ! p) \<notin> used \<union> claimed_before ms p \<and>
         thr < calculate_iou (bbox t') (fst (dets ! snd (ms ! p))) \<and>
         (\<forall>i<length dets. i \<notin> used \<union> claimed_before ms p \<longrightarrow>
            calculate_iou (bbox t') (fst (dets ! i)) \<le> calculate_iou (bbox t') (fst (dets ! snd (ms ! p)))
            \<and> (calculate_iou (bbox t') (fst (dets ! i)) = calculate_iou (bbox t') (fst (dets ! snd (ms ! p)))
                 \<longrightarrow> snd (ms ! p) \<le> i))" if p: "p < length ms" for p
    proof (cases p)
      case 0
      show ?thesis
        unfolding eq 0 kt cb0 using sp by (intro exI [of _ t]) auto
    next
      case (Suc q)
      with p eq have q: "q < length ms1" by simp
      from IH q obtain t' where t': "(fst (ms1 ! q), t') \<in> set ts"
        "snd (ms1 ! q) \<notin> insert ?j used \<union> claimed_before ms1 q"
        "thr < calculate_iou (bbox t') (fst (dets ! snd (ms1 ! q)))"
        "\<forall>i<length dets. i \<notin> insert ?j used \<union> claimed_before ms1 q \<longrightarrow>
            calculate_iou (bbox t') (fst (dets ! i)) \<le> calculate_iou (bbox t') (fst (dets ! snd (ms1 ! q)))
            \<and> (calculate_iou (bbox t') (fst (dets ! i)) = calculate_iou (bbox t') (fst (dets ! snd (ms1 ! q)))
                 \<longrightarrow> snd (ms1 ! q) \<le> i)"
        by blast
      show ?thesis
        unfolding eq Suc using t' unfolding cbS
        by (intro exI [of _ t']) simp
    qed
    from 1 2 3 4 5 6 7 show ?thesis by blast
  qed
qed

section \<open>Tracker: counters\<close>

lemma track_ok_init: "track_ok (Track_init tid b vc conf)"
  by (simp add: track_ok_def Track_init_def)

lemma track_ok_update: "1 \<le> hits t \<Longrightarrow> hits t \<le> age t \<Longrightarrow> track_ok (Track_update t b conf)"
  by (simp add: track_ok_def Track_update_def Let_def)

lemma predict_counters:
  "age (Track_predict t) = age t + 1" "hits (Track_predict t) = hits t"
  "time_since_update (Track_predict t) = time_since_update t + 1"
  by (simp_all add: Track_predict_def Let_def)

lemma match_tracks_ok:
  "\<forall>kt \<in> set ts. 1 \<le> hits (snd kt) \<and> hits (snd kt) \<le> age (snd kt) \<and> 0 \<le> time_since_update (snd kt)
     \<Longrightarrow> \<forall>kt \<in> set (fst (match_tracks thr dets used ts)). track_ok (snd kt)"
proof (induction ts arbitrary: used)
  case Nil
  then show ?case by simp
next
  case (Cons kt ts)
  obtain tid t where kt: "kt = (tid, t)" by (cases kt)
  from Cons.prems have tl:
    "\<forall>kt \<in> set ts. 1 \<le> hits (snd kt) \<and> hits (snd kt) \<le> age (snd kt) \<and> 0 \<le> time_since_update (snd kt)"
    by simp
  from Cons.prems kt have hd: "1 \<le> hits t" "hits t \<le> age t" "0 \<le> time_since_update t"
    by simp_all
  then have "track_ok t" by (simp add: track_ok_def)
  with hd Cons.IH [OF tl] kt show ?case
    by (auto simp: Let_def track_ok_update)
qed

lemma spawn_tracks_ok:
  "\<forall>kt \<in> set ts. track_ok (snd kt)
     \<Longrightarrow> \<forall>kt \<in> set (fst (spawn_tracks used ds (ts, nid))). track_ok (snd kt)"
proof (induction ds arbitrary: ts nid)
  case Nil
  then show ?case by simp
next
  case (Cons p ds)
  obtain i d where p: "p = (i, d)" by (cases p)
  show ?case
  proof (cases "i \<in> used")
    case True
    with Cons p show ?thesis by simp
  next
    case False
    let ?t = "Track_init nid (fst d) (fst (snd d)) (snd (snd d))"
    have "\<forall>kt \<in> set (dict_set nid ?t ts). track_ok (snd kt)"
      using Cons.prems dict_set_subset [of nid ?t ts] track_ok_init by fastforce
    from Cons.IH [OF this] False p show ?thesis by simp
  qed
qed

lemma update_tracks_ok:
  assumes "\<forall>kt \<in> set (tracks s). track_ok (snd kt)"
  shows "\<forall>kt \<in> set (tracks (snd (VehicleTracker_update s dets))). track_ok (snd kt)"
proof -
  let ?s1 = "predict_all s"
  have a1: "\<forall>kt \<in> set (tracks ?s1).
      1 \<le> hits (snd kt) \<and> hits (snd kt) \<le> age (snd kt) \<and> 0 \<le> time_since_update (snd kt)"
    using assms by (auto simp: predict_all_def track_ok_def predict_counters)
  then have a1': "\<forall>kt \<in> set (tracks ?s1). track_ok (snd kt)"
    by (auto simp: track_ok_def)
  let ?s2 = "if length dets = 0 then ?s1 else snd (associate_detections ?s1 dets)"
  have a2: "\<forall>kt \<in> set (tracks ?s2). track_ok (snd kt)"
  proof (cases "length dets = 0")
    case True
    with a1' show ?thesis by simp
  next
    case False
    from spawn_tracks_ok [OF match_tracks_ok [OF a1]] False show ?thesis
      by (simp add: associate_detections_def Let_def)
  qed
  then have "\<forall>kt \<in> set (tracks (remove_dead_tracks ?s2)). track_ok (snd kt)"
    by (simp add: remove_dead_tracks_def)
  then show ?thesis by (simp add: VehicleTracker_update_def Let_def)
qed

lemma reachable_tracks_ok: "reachable s \<Longrightarrow> \<forall>kt \<in> set (tracks s). track_ok (snd kt)"
proof (induction rule: reachable.induct)
  case (init ma mh thr)
  show ?case by (simp add: VehicleTracker_init_def)
next
  case (step s dets)
  from step.IH show ?case by (rule update_tracks_ok)
qed

lemma associate_config:
  "max_age (snd (associate_detections s dets)) = max_age s"
  "min_hits (snd (associate_detections s dets)) = min_hits s"
  "iou_threshold (snd (associate_detections s dets)) = iou_threshold s"
  by (simp_all add: associate_detections_def Let_def)

lemma update_returned:
  "t \<in> set (fst (VehicleTracker_update s dets)) \<Longrightarrow>
     min_hits s \<le> hits t \<and> time_since_update t \<le> max_age s
     \<and> t \<in> snd ` set (tracks (snd (VehicleTracker_update s dets)))"
  by (cases "dets = []")
     (auto simp: VehicleTracker_update_def remove_dead_tracks_def predict_all_def
        associate_config Let_def)

section \<open>Tracker: which returned tracks were updated in the call\<close>

lemma track_id_kept:
  "track_id (Track_predict t) = track_id t" "track_id (Track_update t b c) = track_id t"
  "track_id (Track_init tid b vc c) = tid"
  by (simp_all add: Track_predict_def Track_update_def Track_init_def Let_def)

lemma match_tracks_track_ids:
  "\<forall>kt \<in> set ts. track_id (snd kt) = fst kt
     \<Longrightarrow> \<forall>kt \<in> set (fst (match_tracks thr dets used ts)). track_id (snd kt) = fst kt"
proof (induction ts arbitrary: used)
  case Nil
  then show ?case by simp
next
  case (Cons kt ts)
  obtain tid t where kt: "kt = (tid, t)" by (cases kt)
  from Cons.prems kt have hd: "track_id t = tid"
    and tl: "\<forall>kt \<in> set ts. track_id (snd kt) = fst kt" by auto
  from Cons.IH [OF tl] hd kt show ?case
    by (auto simp: Let_def track_id_kept)
qed

lemma spawn_tracks_new:
  "\<forall>kt \<in> set (fst (spawn_tracks used ds (ts, nid))).
      kt \<in> set ts \<or> (nid \<le> fst kt \<and> time_since_update (snd kt) = 0 \<and> track_id (snd kt) = fst kt)"
proof (induction ds arbitrary: ts nid)
  case Nil
  show ?case by simp
next
  case (Cons p ds)
  obtain i d where p: "p = (i, d)" by (cases p)
  show ?case
  proof (cases "i \<in> used")
    case True
    with Cons p show ?thesis by simp
  next
    case False
    let ?t = "Track_init nid (fst d) (fst (snd d)) (snd (snd d))"
    have new: "time_since_update ?t = 0" "track_id ?t = nid"
      by (simp_all add: Track_init_def)
    from Cons.IH [of "dict_set nid ?t ts" "nid + 1"] dict_set_subset [of nid ?t ts] new False p
    show ?thesis by fastforce
  qed
qed

lemma update_track_ids:
  assumes "\<forall>kt \<in> set (tracks s). track_id (snd kt) = fst kt"
  shows "\<forall>kt \<in> set (tracks (snd (VehicleTracker_update s dets))). track_id (snd kt) = fst kt"
proof -
  let ?s1 = "predict_all s"
  have a1: "\<forall>kt \<in> set (tracks ?s1). track_id (snd kt) = fst kt"
    using assms by (auto simp: predict_all_def track_id_kept)
  let ?s2 = "if length dets = 0 then ?s1 else snd (associate_detections ?s1 dets)"
  have a2: "\<forall>kt \<in> set (tracks ?s2). track_id (snd kt) = fst kt"
  proof (cases "length dets = 0")
    case True
    with a1 show ?thesis by simp
  next
    case False
    let ?m = "match_tracks (iou_threshold ?s1) dets {} (tracks ?s1)"
    from match_tracks_track_ids [OF a1]
    have "\<forall>kt \<in> set (fst ?m). track_id (snd kt) = fst kt" .
    with spawn_tracks_new [of "fst (snd ?m)" "enumerate 0 dets" "fst ?m" "next_id ?s1"] False
    show ?thesis
      by (fastforce simp: associate_detections_def Let_def)
  qed
  then have "\<forall>kt \<in> set (tracks (remove_dead_tracks ?s2)). track_id (snd kt) = fst kt"
    by (simp add: remove_dead_tracks_def)
  then show ?thesis by (simp add: VehicleTracker_update_def Let_def)
qed

lemma reachable_track_ids: "reachable s \<Longrightarrow> \<forall>kt \<in> set (tracks s). track_id (snd kt) = fst kt"
proof (induction rule: reachable.induct)
  case (init ma mh thr)
  show ?case by (simp add: VehicleTracker_init_def)
next
  case (step s dets)
  from step.IH show ?case by (rule update_track_ids)
qed

lemma match_tracks_matched_ids:
  "match_tracks thr dets used ts = (ts', used', ms) \<Longrightarrow> set (map fst ms) \<subseteq> set (map fst ts)"
  using match_tracks_spec by blast

lemma match_tracks_fresh:
  assumes "match_tracks thr dets used ts = (ts', used', ms)"
    and "distinct (map fst ts)"
    and "\<forall>kt \<in> set ts. 1 \<le> time_since_update (snd kt)"
  shows "\<forall>kt \<in> set ts'. time_since_update (snd kt) = 0 \<longleftrightarrow> fst kt \<in> fst ` set ms"
  using assms
proof (induction ts arbitrary: used ts' used' ms)
  case Nil
  then show ?case by simp
next
  case (Cons kt ts)
  obtain tid t where kt: "kt = (tid, t)" by (cases kt)
  from Cons.prems kt have dist: "distinct (map fst ts)" and notin: "tid \<notin> fst ` set ts"
    and old: "\<forall>kt \<in> set ts. 1 \<le> time_since_update (snd kt)" and t1: "1 \<le> time_since_update t"
    by auto
  let ?j = "snd (best_detection thr (bbox t) used dets)"
  show ?case
  proof (cases "0 \<le> ?j")
    case True
    obtain ts1 used1 ms1 where r: "match_tracks thr dets (insert (nat ?j) used) ts = (ts1, used1, ms1)"
      by (cases "match_tracks thr dets (insert (nat ?j) used) ts") auto
    from Cons.prems(1) kt True r have eq: "ms = (tid, nat ?j) # ms1"
      "ts' = (tid, Track_update t (fst (dets ! nat ?j)) (snd (snd (dets ! nat ?j)))) # ts1"
      by (auto simp: Let_def)
    have keys: "fst ` set ts1 = fst ` set ts"
      using match_tracks_keys [of thr dets "insert (nat ?j) used" ts] r
      by (metis fst_conv list.set_map)
    have hd0: "time_since_update (Track_update t (fst (dets ! nat ?j)) (snd (snd (dets ! nat ?j)))) = 0"
      by (simp add: Track_update_def Let_def)
    from Cons.IH [OF r dist old] keys notin hd0 show ?thesis
      unfolding eq by auto
  next
    case False
    obtain ts1 used1 ms1 where r: "match_tracks thr dets used ts = (ts1, used1, ms1)"
      by (cases "match_tracks thr dets used ts") auto
    from Cons.prems(1) kt False r have eq: "ms = ms1" "ts' = (tid, t) # ts1"
      by (auto simp: Let_def)
    from match_tracks_matched_ids [OF r] notin have "tid \<notin> fst ` set ms1" by auto
    with Cons.IH [OF r dist old] t1 show ?thesis
      unfolding eq by auto
  qed
qed

lemma update_tracks_origin:
  assumes "kt \<in> set (tracks (snd (VehicleTracker_update s dets)))"
  shows "if dets = [] then kt \<in> set (tracks (predict_all s))
         else kt \<in> set (fst (spawn_tracks
                 (fst (snd (match_tracks (iou_threshold s) dets {} (tracks (predict_all s)))))
                 (enumerate 0 dets)
                 (fst (match_tracks (iou_threshold s) dets {} (tracks (predict_all s))), next_id s)))"
  using assms
  by (auto simp: VehicleTracker_update_def remove_dead_tracks_def associate_detections_def
      predict_all_def Let_def split: if_splits)

lemma update_returned_fresh:
  assumes r: "reachable s" and t: "t \<in> set (fst (VehicleTracker_update s dets))"
  shows "time_since_update t = 0 \<longleftrightarrow>
           track_id t \<in> set (matched_track_ids (fst (associate_detections (predict_all s) dets)))
           \<or> next_id s \<le> track_id t"
proof -
  let ?s1 = "predict_all s"
  obtain ts' used' ms where m:
    "match_tracks (iou_threshold s) dets {} (tracks ?s1) = (ts', used', ms)"
    by (cases "match_tracks (iou_threshold s) dets {} (tracks ?s1)") auto
  have ms: "matched_track_ids (fst (associate_detections ?s1 dets)) = map fst ms"
    using m by (simp add: associate_detections_def matched_track_ids_def predict_all_def Let_def)
  have keys1: "map fst (tracks ?s1) = map fst (tracks s)"
    by (simp add: predict_all_def comp_def)
  from reachable_ids [OF r] have asc: "sorted_wrt (<) (map fst (tracks s))"
    and below: "\<forall>k \<in> set (map fst (tracks s)). k < next_id s"
    by (simp_all add: ids_ascending_def)
  from asc have dist: "distinct (map fst (tracks ?s1))"
    by (simp add: keys1 strict_sorted_iff)
  from reachable_tracks_ok [OF r] have old: "\<forall>kt \<in> set (tracks ?s1). 1 \<le> time_since_update (snd kt)"
    by (auto simp: predict_all_def track_ok_def predict_counters)
  from update_returned [OF t] obtain k where k: "(k, t) \<in> set (tracks (snd (VehicleTracker_update s dets)))"
    by auto
  from reachable_track_ids [OF reachable.step [OF r], of dets] k have id: "track_id t = k"
    by auto
  note orig = update_tracks_origin [OF k]
  show ?thesis
  proof (cases "dets = []")
    case True
    with orig have in1: "(k, t) \<in> set (tracks ?s1)" by simp
    with old have "1 \<le> time_since_update t" by auto
    moreover from in1 below keys1 have "k < next_id s"
      by (metis fst_conv image_eqI list.set_map)
    moreover from match_tracks_spec [OF m] True have "ms = []" by (cases ms) auto
    ultimately show ?thesis using id ms by simp
  next
    case False
    with orig m have "(k, t) \<in> set (fst (spawn_tracks used' (enumerate 0 dets) (ts', next_id s)))"
      by simp
    with spawn_tracks_new [of used' "enumerate 0 dets" ts' "next_id s"]
    consider (old) "(k, t) \<in> set ts'" | (new) "next_id s \<le> k" "time_since_update t = 0"
      by fastforce
    then show ?thesis
    proof cases
      case old
      with match_tracks_fresh [OF m dist \<open>\<forall>kt \<in> set (tracks ?s1). 1 \<le> time_since_update (snd kt)\<close>]
      have a: "time_since_update t = 0 \<longleftrightarrow> k \<in> fst ` set ms"
        by (metis fst_conv snd_conv)
      have "map fst ts' = map fst (tracks s)"
        using match_tracks_keys [of "iou_threshold s" dets "{}" "tracks ?s1"] m keys1 by simp
      with old below have "k < next_id s"
        by (metis fst_conv image_eqI list.set_map)
      with a id ms show ?thesis by simp
    next
      case new
      with id show ?thesis by simp
    qed
  qed
qed

lemma lifecycle_points_ok:
  assumes "reachable s"
  shows "\<forall>kt \<in> set (tracks (predict_all s)). track_ok (snd kt)"
    and "\<forall>kt \<in> set (tracks (snd (associate_detections (predict_all s) dets))). track_ok (snd kt)"
proof -
  let ?s1 = "predict_all s"
  have a1: "\<forall>kt \<in> set (tracks ?s1).
      1 \<le> hits (snd kt) \<and> hits (snd kt) \<le> age (snd kt) \<and> 0 \<le> time_since_update (snd kt)"
    using reachable_tracks_ok [OF assms] by (auto simp: predict_all_def track_ok_def predict_counters)
  then show "\<forall>kt \<in> set (tracks ?s1). track_ok (snd kt)"
    by (auto simp: track_ok_def)
  from spawn_tracks_ok [OF match_tracks_ok [OF a1]]
  show "\<forall>kt \<in> set (tracks (snd (associate_detections ?s1 dets))). track_ok (snd kt)"
    by (simp add: associate_detections_def Let_def)
qed

section \<open>Tracker: which tracks a call returns\<close>

lemma match_tracks_keeps_unmatched:
  "match_tracks thr dets used ts = (ts', used', ms) \<Longrightarrow> (k, t) \<in> set ts
     \<Longrightarrow> k \<notin> fst ` set ms \<Longrightarrow> (k, t) \<in> set ts'"
proof (induction ts arbitrary: used ts' used' ms)
  case Nil
  then show ?case by simp
next
  case (Cons kt ts)
  obtain tid t0 where kt: "kt = (tid, t0)" by (cases kt)
  let ?j = "snd (best_detection thr (bbox t0) used dets)"
  show ?case
  proof (cases "0 \<le> ?j")
    case True
    obtain ts1 used1 ms1 where r: "match_tracks thr dets (insert (nat ?j) used) ts = (ts1, used1, ms1)"
      by (cases "match_tracks thr dets (insert (nat ?j) used) ts") auto
    from Cons.prems(1) kt True r have eq: "ms = (tid, nat ?j) # ms1"
      "ts' = (tid, Track_update t0 (fst (dets ! nat ?j)) (snd (snd (dets ! nat ?j)))) # ts1"
      by (auto simp: Let_def)
    from Cons.prems(3) eq have ne: "k \<noteq> tid" and "k \<notin> fst ` set ms1" by auto
    with Cons.prems(2) kt Cons.IH [OF r] show ?thesis unfolding eq by auto
  next
    case False
    obtain ts1 used1 ms1 where r: "match_tracks thr dets used ts = (ts1, used1, ms1)"
      by (cases "match_tracks thr dets used ts") auto
    from Cons.prems(1) kt False r have eq: "ms = ms1" "ts' = (tid, t0) # ts1"
      by (auto simp: Let_def)
    from Cons.prems(2,3) kt Cons.IH [OF r] show ?thesis unfolding eq by auto
  qed
qed

lemma spawn_tracks_keeps:
  "ids_ascending ts nid \<Longrightarrow> set ts \<subseteq> set (fst (spawn_tracks used ds (ts, nid)))"
proof (induction ds arbitrary: ts nid)
  case Nil
  then show ?case by simp
next
  case (Cons p ds)
  obtain i d where p: "p = (i, d)" by (cases p)
  show ?case
  proof (cases "i \<in> used")
    case True
    with Cons p show ?thesis by simp
  next
    case False
    let ?t = "Track_init nid (fst d) (fst (snd d)) (snd (snd d))"
    have fresh: "nid \<notin> fst ` set ts"
      using Cons.prems by (auto simp: ids_ascending_def)
    have app: "dict_set nid ?t ts = ts @ [(nid, ?t)]"
      by (rule dict_set_fresh [OF fresh])
    have "ids_ascending (ts @ [(nid, ?t)]) (nid + 1)"
      using Cons.prems by (auto simp: ids_ascending_def sorted_wrt_append)
    from Cons.IH [OF this] False p show ?thesis by (simp add: app)
  qed
qed

lemma update_returned_exactly:
  "fst (VehicleTracker_update s dets) =
     filter (\<lambda>t. min_hits s \<le> hits t) (map snd (tracks (snd (VehicleTracker_update s dets))))"
  by (cases "dets = []")
     (simp_all add: VehicleTracker_update_def remove_dead_tracks_def predict_all_def
        associate_config Let_def)

lemma unmatched_track_kept:
  assumes r: "reachable s" and kt: "(k, t) \<in> set (tracks s)"
    and un: "k \<notin> set (matched_track_ids (fst (associate_detections (predict_all s) dets)))"
    and alive: "time_since_update t + 1 \<le> max_age s"
  shows "(k, Track_predict t) \<in> set (tracks (snd (VehicleTracker_update s dets)))"
proof -
  let ?s1 = "predict_all s"
  have in1: "(k, Track_predict t) \<in> set (tracks ?s1)"
    using kt by (force simp: predict_all_def)
  obtain ts' used' ms where m:
    "match_tracks (iou_threshold s) dets {} (tracks ?s1) = (ts', used', ms)"
    by (cases "match_tracks (iou_threshold s) dets {} (tracks ?s1)") auto
  have ms: "matched_track_ids (fst (associate_detections ?s1 dets)) = map fst ms"
    using m by (simp add: associate_detections_def matched_track_ids_def predict_all_def Let_def)
  from un ms have "k \<notin> fst ` set ms" by simp
  from match_tracks_keeps_unmatched [OF m in1 this] have in2: "(k, Track_predict t) \<in> set ts'" .
  have "ids_ascending (tracks ?s1) (next_id s)"
    using reachable_ids [OF r] by (simp add: predict_all_def ids_ascending_def comp_def)
  then have "ids_ascending ts' (next_id s)"
    using match_tracks_keys [of "iou_threshold s" dets "{}" "tracks ?s1"] m
    by (simp add: ids_ascending_def)
  from spawn_tracks_keeps [OF this, of used' "enumerate 0 dets"] in2
  have in3: "(k, Track_predict t) \<in> set (fst (spawn_tracks used' (enumerate 0 dets) (ts', next_id s)))"
    by blast
  have live: "\<not> max_age s < time_since_update (Track_predict t)"
    using alive by (simp add: predict_counters)
  show ?thesis
  proof (cases "dets = []")
    case True
    with in1 live show ?thesis
      by (simp add: VehicleTracker_update_def remove_dead_tracks_def Let_def)
         (simp add: predict_all_def)
  next
    case False
    with in3 m live show ?thesis
      by (simp add: VehicleTracker_update_def remove_dead_tracks_def associate_detections_def Let_def)
         (simp add: predict_all_def)
  qed
qed

section \<open>Tracker: the scenarios evaluated\<close>

lemmas tracker_eval =
  VehicleTracker_update_def VehicleTracker_init_def predict_all_def associate_detections_def
  remove_dead_tracks_def best_detection_def calculate_iou_def Track_init_def Track_update_def
  Track_predict_def BoundingBox_init_def area_def width_def height_def center_def
  deque_append_def Let_def

lemma single_car_frame1_eval:
  "fst single_car_frame1 = []"
  "map fst (tracks (snd single_car_frame1)) = [1]"
  "map age (map snd (tracks (snd single_car_frame1))) = [0]"
  "map hits (map snd (tracks (snd single_car_frame1))) = [1]"
  by (simp_all add: single_car_frame1_def tracker_eval)

lemma single_car_frame2_eval:
  "map track_id (fst single_car_frame2) = [1]"
  "map age (fst single_car_frame2) = [1]"
  "map hits (fst single_car_frame2) = [2]"
  "map time_since_update (fst single_car_frame2) = [0]"
  "map snd (tracks (snd single_car_frame2)) = fst single_car_frame2"
  "min_hits (snd single_car_frame2) = 2"
  "max_age (snd single_car_frame2) = 30"
  by (simp_all add: single_car_frame2_def single_car_frame1_def tracker_eval)

lemma single_car_frame3_eval:
  "map track_id (fst single_car_frame3) = [1]"
  "map age (fst single_car_frame3) = [2]"
  "map hits (fst single_car_frame3) = [2]"
  "map time_since_update (fst single_car_frame3) = [1]"
  by (simp_all add: single_car_frame3_def single_car_frame2_def single_car_frame1_def tracker_eval)

lemma single_car_frame2_head:
  "tracks (snd single_car_frame2) \<noteq> []"
  "fst (hd (tracks (snd single_car_frame2))) = 1"
  "hits (snd (hd (tracks (snd single_car_frame2)))) = 2"
  "time_since_update (snd (hd (tracks (snd single_car_frame2)))) = 0"
  "matched_track_ids (fst (associate_detections (predict_all (snd single_car_frame2)) [])) = []"
  by (simp_all add: single_car_frame2_def single_car_frame1_def matched_track_ids_def tracker_eval)

lemma single_car_reachable: "reachable (snd single_car_frame2)"
  unfolding single_car_frame2_def single_car_frame1_def
  by (intro reachable.step reachable.init)

lemma two_car_reachable: "reachable two_car_tracker"
  unfolding two_car_tracker_def by (intro reachable.step reachable.init)

lemma two_car_association:
  "fst (associate_detections (predict_all two_car_tracker) two_car_detections) = [(1, 0), (2, 1)]"
  by (simp add: two_car_tracker_def two_car_detections_def tracker_eval)

lemma hd_of_singleton_map: "map f xs = [v] \<Longrightarrow> xs \<noteq> [] \<and> f (hd xs) = v \<and> hd xs \<in> set xs"
  by (cases xs) auto

section \<open>Tracker: properties\<close>

text \<open>
  C1 (as amended). For every call to \<open>VehicleTracker.update\<close> on a tracker that a run can
  reach: every returned track has \<open>hits \<ge> min_hits\<close> and \<open>0 \<le> time_since_update \<le> max_age\<close>,
  and \<open>time_since_update = 0\<close> exactly when the track was matched to a detection or created
  in this call; the returned list is exactly the tracks the tracker keeps after the call that
  have \<open>hits \<ge> min_hits\<close>, in the tracker's order; and a track with \<open>hits \<ge> min_hits\<close> that is
  not matched in this call and is not yet older than \<open>max_age\<close> is returned, predicted forward,
  with its counter one higher than before.
\<close>

theorem returned_tracks_confirmed_and_alive:
  "reachable s \<Longrightarrow>
     (\<forall>t \<in> set (fst (VehicleTracker_update s dets)).
        min_hits s \<le> hits t \<and> 0 \<le> time_since_update t \<and> time_since_update t \<le> max_age s
        \<and> (time_since_update t = 0 \<longleftrightarrow>
              track_id t \<in> set (matched_track_ids
                                  (fst (associate_detections (predict_all s) dets)))
              \<or> next_id s \<le> track_id t))
     \<and> fst (VehicleTracker_update s dets)
          = filter (\<lambda>t. min_hits s \<le> hits t)
              (map snd (tracks (snd (VehicleTracker_update s dets))))
     \<and> (\<forall>kt \<in> set (tracks s).
            min_hits s \<le> hits (snd kt) \<and> time_since_update (snd kt) + 1 \<le> max_age s
            \<and> fst kt \<notin> set (matched_track_ids
                                  (fst (associate_detections (predict_all s) dets)))
            \<longrightarrow> Track_predict (snd kt) \<in> set (fst (VehicleTracker_update s dets))
                \<and> time_since_update (Track_predict (snd kt)) = time_since_update (snd kt) + 1)"
proof -
  assume r: "reachable s"
  have bounds: "min_hits s \<le> hits t \<and> 0 \<le> time_since_update t \<and> time_since_update t \<le> max_age s
        \<and> (time_since_update t = 0 \<longleftrightarrow>
              track_id t \<in> set (matched_track_ids
                                  (fst (associate_detections (predict_all s) dets)))
              \<or> next_id s \<le> track_id t)"
    if t: "t \<in> set (fst (VehicleTracker_update s dets))" for t
  proof -
    from update_returned [OF t] reachable_tracks_ok [OF reachable.step [OF r], of dets]
    have "min_hits s \<le> hits t \<and> 0 \<le> time_since_update t \<and> time_since_update t \<le> max_age s"
      by (fastforce simp: track_ok_def)
    with update_returned_fresh [OF r t] show ?thesis by blast
  qed
  note exact = update_returned_exactly [of s dets]
  have kept: "Track_predict (snd kt) \<in> set (fst (VehicleTracker_update s dets))
        \<and> time_since_update (Track_predict (snd kt)) = time_since_update (snd kt) + 1"
    if kt: "kt \<in> set (tracks s)" and h: "min_hits s \<le> hits (snd kt)"
      and alive: "time_since_update (snd kt) + 1 \<le> max_age s"
      and un: "fst kt \<notin> set (matched_track_ids
                                  (fst (associate_detections (predict_all s) dets)))" for kt
  proof -
    from kt have "(fst kt, snd kt) \<in> set (tracks s)" by simp
    from unmatched_track_kept [OF r this un alive]
    have "Track_predict (snd kt) \<in> snd ` set (tracks (snd (VehicleTracker_update s dets)))"
      by force
    moreover from h have "min_hits s \<le> hits (Track_predict (snd kt))"
      by (simp add: predict_counters)
    ultimately have "Track_predict (snd kt) \<in> set (fst (VehicleTracker_update s dets))"
      by (subst exact) simp
    then show ?thesis by (simp add: predict_counters)
  qed
  from bounds exact kept show ?thesis by blast
qed

theorem returned_tracks_confirmed_and_alive_witness:
  "reachable (snd single_car_frame2)
   \<and> fst single_car_frame3 \<noteq> []
   \<and> min_hits (snd single_car_frame2) \<le> hits (hd (fst single_car_frame3))
   \<and> 0 \<le> time_since_update (hd (fst single_car_frame3))
   \<and> time_since_update (hd (fst single_car_frame3)) \<le> max_age (snd single_car_frame2)
   \<and> Track_predict (snd (hd (tracks (snd single_car_frame2)))) \<in> set (fst single_car_frame3)"
proof -
  let ?kt = "hd (tracks (snd single_car_frame2))"
  have ne: "fst single_car_frame3 \<noteq> []" and mem: "hd (fst single_car_frame3) \<in> set (fst single_car_frame3)"
    using hd_of_singleton_map [OF single_car_frame3_eval(1)] by simp_all
  have kt: "?kt \<in> set (tracks (snd single_car_frame2))"
    using single_car_frame2_head(1) by simp
  have h: "min_hits (snd single_car_frame2) \<le> hits (snd ?kt)
        \<and> time_since_update (snd ?kt) + 1 \<le> max_age (snd single_car_frame2)
        \<and> fst ?kt \<notin> set (matched_track_ids
              (fst (associate_detections (predict_all (snd single_car_frame2)) [])))"
    by (simp add: single_car_frame2_head single_car_frame2_eval)
  note th = returned_tracks_confirmed_and_alive [OF single_car_reachable, of "[]"]
  from th mem
  have 1: "min_hits (snd single_car_frame2) \<le> hits (hd (fst single_car_frame3))
        \<and> 0 \<le> time_since_update (hd (fst single_car_frame3))
        \<and> time_since_update (hd (fst single_car_frame3)) \<le> max_age (snd single_car_frame2)"
    unfolding single_car_frame3_def by blast
  from th kt h
  have 2: "Track_predict (snd ?kt) \<in> set (fst single_car_frame3)"
    unfolding single_car_frame3_def by blast
  from single_car_reachable ne 1 2 show ?thesis by blast
qed

text \<open>
  C1 as stated fails: after two matched frames and one frame without detections
  (\<open>min_hits = 2\<close>, \<open>max_age = 30\<close>) the call returns the track with \<open>hits = 2\<close> and
  \<open>time_since_update = 1\<close>.
\<close>

theorem returned_track_not_updated_counterexample:
  "fst single_car_frame3 \<noteq> []
   \<and> hits (hd (fst single_car_frame3)) = 2
   \<and> time_since_update (hd (fst single_car_frame3)) = 1
   \<and> time_since_update (hd (fst single_car_frame3)) \<noteq> 0"
  using hd_of_singleton_map [OF single_car_frame3_eval(3)]
    hd_of_singleton_map [OF single_car_frame3_eval(4)]
  by simp

text \<open>
  C4 (as amended). A freshly spawned track has \<open>age = 0\<close>, \<open>hits = 1\<close>, \<open>time_since_update = 0\<close>
  and \<open>velocity = (0, 0)\<close>, and every track of a tracker that a run can reach satisfies
  \<open>hits \<ge> 1\<close> and \<open>hits \<le> age + 1\<close>, between calls as well as inside the next call, after the
  predict step and after the association step. \<open>age\<close> can be one less than \<open>hits\<close>, since the
  detection that creates a track counts as a hit and not as a frame of age.
\<close>

theorem track_counters_invariant:
  "(age (Track_init tid b vc conf) = 0 \<and> hits (Track_init tid b vc conf) = 1
      \<and> time_since_update (Track_init tid b vc conf) = 0
      \<and> velocity (Track_init tid b vc conf) = (0, 0))
   \<and> (reachable s \<longrightarrow>
        (\<forall>kt \<in> set (tracks s). 1 \<le> hits (snd kt) \<and> hits (snd kt) \<le> age (snd kt) + 1)
        \<and> (\<forall>kt \<in> set (tracks (predict_all s)).
              1 \<le> hits (snd kt) \<and> hits (snd kt) \<le> age (snd kt) + 1)
        \<and> (\<forall>kt \<in> set (tracks (snd (associate_detections (predict_all s) dets))).
              1 \<le> hits (snd kt) \<and> hits (snd kt) \<le> age (snd kt) + 1))"
  using reachable_tracks_ok [of s] lifecycle_points_ok(1) [of s] lifecycle_points_ok(2) [of s dets]
  by (auto simp: Track_init_def track_ok_def)

theorem track_counters_invariant_witness:
  "reachable (snd single_car_frame2)
   \<and> tracks (snd single_car_frame2) \<noteq> []
   \<and> 1 \<le> hits (snd (hd (tracks (snd single_car_frame2))))
   \<and> hits (snd (hd (tracks (snd single_car_frame2)))) \<le> age (snd (hd (tracks (snd single_car_frame2)))) + 1"
proof -
  have "map snd (tracks (snd single_car_frame2)) \<noteq> []"
    using single_car_frame2_eval(1,5) by auto
  then have ne: "tracks (snd single_car_frame2) \<noteq> []" by simp
  then have mem: "hd (tracks (snd single_car_frame2)) \<in> set (tracks (snd single_car_frame2))"
    by simp
  from track_counters_invariant [of 1 "BoundingBox_init 0 0 1 1" CAR 1 "snd single_car_frame2" "[]"]
    single_car_reachable mem
  have "1 \<le> hits (snd (hd (tracks (snd single_car_frame2))))
        \<and> hits (snd (hd (tracks (snd single_car_frame2)))) \<le> age (snd (hd (tracks (snd single_car_frame2)))) + 1"
    by blast
  with single_car_reachable ne show ?thesis by blast
qed

text \<open>
  C4 as stated fails: \<open>age \<ge> hits\<close> is false for the track created in frame 1 (\<open>age = 0\<close>,
  \<open>hits = 1\<close>) and for the same track when frame 2 returns it (\<open>age = 1\<close>, \<open>hits = 2\<close>).
\<close>

theorem age_below_hits_counterexample:
  "map age (map snd (tracks (snd single_car_frame1))) = [0]
   \<and> map hits (map snd (tracks (snd single_car_frame1))) = [1]
   \<and> fst single_car_frame2 \<noteq> []
   \<and> age (hd (fst single_car_frame2)) = 1
   \<and> hits (hd (fst single_car_frame2)) = 2
   \<and> age (hd (fst single_car_frame2)) < hits (hd (fst single_car_frame2))"
  using hd_of_singleton_map [OF single_car_frame2_eval(2)]
    hd_of_singleton_map [OF single_car_frame2_eval(3)] single_car_frame1_eval
  by simp

text \<open>
  C5. Within one \<open>VehicleTracker.update\<close> call on a tracker that a run can reach, the tracks are
  scanned in ascending id order; the matches pair each track with at most one detection and
  each detection with at most one track; and the detection matched to a track is, among the
  detections not claimed by an earlier track, one with the highest IoU, above the threshold,
  and the one with the smallest index among those with that IoU.
\<close>

theorem greedy_association_one_to_one:
  assumes "reachable s"
  shows "(let s1 = predict_all s; ms = fst (associate_detections s1 dets)
          in sorted_wrt (<) (map fst (tracks s1))
             \<and> sorted_wrt (<) (matched_track_ids ms)
             \<and> distinct (matched_track_ids ms)
             \<and> distinct (map snd ms)
             \<and> (\<forall>p<length ms. \<exists>t. (fst (ms ! p), t) \<in> set (tracks s1)
                   \<and> snd (ms ! p) < length dets
                   \<and> snd (ms ! p) \<notin> claimed_before ms p
                   \<and> iou_threshold s < calculate_iou (bbox t) (fst (dets ! snd (ms ! p)))
                   \<and> (\<forall>i<length dets. i \<notin> claimed_before ms p \<longrightarrow>
                         calculate_iou (bbox t) (fst (dets ! i))
                           \<le> calculate_iou (bbox t) (fst (dets ! snd (ms ! p)))
                         \<and> (calculate_iou (bbox t) (fst (dets ! i))
                               = calculate_iou (bbox t) (fst (dets ! snd (ms ! p)))
                             \<longrightarrow> snd (ms ! p) \<le> i))))"
proof -
  let ?s1 = "predict_all s"
  obtain ts' used' ms where m:
    "match_tracks (iou_threshold s) dets {} (tracks ?s1) = (ts', used', ms)"
    by (cases "match_tracks (iou_threshold s) dets {} (tracks ?s1)") auto
  have thr: "iou_threshold ?s1 = iou_threshold s" by (simp add: predict_all_def)
  have ms: "fst (associate_detections ?s1 dets) = ms"
    using m by (simp add: associate_detections_def Let_def thr)
  have "map fst (tracks ?s1) = map fst (tracks s)"
    by (simp add: predict_all_def comp_def)
  with reachable_ids [OF assms] have srt: "sorted_wrt (<) (map fst (tracks ?s1))"
    by (simp add: ids_ascending_def)
  note sp = match_tracks_spec [OF m]
  from sp srt have a: "sorted_wrt (<) (map fst ms)" by blast
  then have b: "distinct (map fst ms)" by (simp add: strict_sorted_iff)
  from sp have c: "distinct (map snd ms)" by blast
  from sp have bound: "\<forall>j \<in> snd ` set ms. j < length dets" by blast
  have d: "\<exists>t. (fst (ms ! p), t) \<in> set (tracks ?s1)
        \<and> snd (ms ! p) < length dets
        \<and> snd (ms ! p) \<notin> claimed_before ms p
        \<and> iou_threshold s < calculate_iou (bbox t) (fst (dets ! snd (ms ! p)))
        \<and> (\<forall>i<length dets. i \<notin> claimed_before ms p \<longrightarrow>
              calculate_iou (bbox t) (fst (dets ! i))
                \<le> calculate_iou (bbox t) (fst (dets ! snd (ms ! p)))
              \<and> (calculate_iou (bbox t) (fst (dets ! i))
                    = calculate_iou (bbox t) (fst (dets ! snd (ms ! p)))
                  \<longrightarrow> snd (ms ! p) \<le> i))" if p: "p < length ms" for p
  proof -
    from p have "snd (ms ! p) \<in> snd ` set ms" by simp
    with bound have lt: "snd (ms ! p) < length dets" by blast
    from sp p obtain t where "(fst (ms ! p), t) \<in> set (tracks ?s1)"
      "snd (ms ! p) \<notin> {} \<union> claimed_before ms p"
      "iou_threshold s < calculate_iou (bbox t) (fst (dets ! snd (ms ! p)))"
      "\<forall>i<length dets. i \<notin> {} \<union> claimed_before ms p \<longrightarrow>
            calculate_iou (bbox t) (fst (dets ! i)) \<le> calculate_iou (bbox t) (fst (dets ! snd (ms ! p)))
            \<and> (calculate_iou (bbox t) (fst (dets ! i)) = calculate_iou (bbox t) (fst (dets ! snd (ms ! p)))
                 \<longrightarrow> snd (ms ! p) \<le> i)"
      by blast
    with lt show ?thesis by (intro exI [of _ t]) simp
  qed
  from srt a b c d show ?thesis
    unfolding Let_def ms matched_track_ids_def by blast
qed

theorem greedy_association_one_to_one_witness:
  "reachable two_car_tracker
   \<and> fst (associate_detections (predict_all two_car_tracker) two_car_detections) = [(1, 0), (2, 1)]
   \<and> distinct (matched_track_ids
        (fst (associate_detections (predict_all two_car_tracker) two_car_detections)))
   \<and> distinct (map snd
        (fst (associate_detections (predict_all two_car_tracker) two_car_detections)))"
proof -
  from greedy_association_one_to_one [OF two_car_reachable, of two_car_detections]
  have "distinct (matched_track_ids
          (fst (associate_detections (predict_all two_car_tracker) two_car_detections)))
        \<and> distinct (map snd
          (fst (associate_detections (predict_all two_car_tracker) two_car_detections)))"
    unfolding Let_def by blast
  with two_car_reachable two_car_association show ?thesis by blast
qed

section \<open>Plate proposer: properties\<close>

lemmas proposer_eval =
  capture_call_def is_ready_for_capture_def estimate_plate_region_def PlateProposer_init_def
  Track_init_def BoundingBox_init_def height_def width_def center_def stability_def
  deque_append_def Let_def

lemma proposer1_eval: "proposer1 = proposer0\<lparr> stable_tracks := [1 \<mapsto> 1] \<rparr>"
  by (simp add: proposer1_def proposer0_def car1_def proposer_eval)

lemma proposer2_eval: "proposer2 = proposer0\<lparr> stable_tracks := [1 \<mapsto> 2] \<rparr>"
  by (simp add: proposer2_def proposer1_eval proposer0_def car1_def proposer_eval)

lemma proposer3_eval: "proposer3 = proposer0\<lparr> stable_tracks := [1 \<mapsto> 3] \<rparr>"
  by (simp add: proposer3_def proposer2_eval proposer0_def car1_def proposer_eval)

lemma car1_plate_height: "height (estimate_plate_region car1) = 60"
  by (simp add: car1_def proposer_eval)

lemma capture_scenario:
  "fst (capture_call proposer0 car1) = Inr (False, 1)"
  "fst (capture_call proposer1 car1) = Inr (False, 1)"
  "fst (capture_call proposer2 car1) = Inr (True, 1)"
  "fst (capture_call proposer3 car1) = Inr (True, 1)"
  by (simp_all add: proposer1_eval proposer2_eval proposer3_eval proposer0_def car1_def proposer_eval)

text \<open>
  C2. \<open>is_ready_for_capture\<close> returns READY only with zoom factor 1, only when the track's
  stability counter, incremented by this call, has reached \<open>stability_frames\<close>, and only when
  the plate height is at least \<open>target_plate_height\<close>. With
  \<open>min_plate_height_pixels = 30\<close>, \<open>target_plate_height = 60\<close>, \<open>stability_frames = 3\<close> and a
  plate height of 60, successive calls for the same track give NOT READY, NOT READY, READY
  with zoom factor 1 (and READY again on the fourth).
\<close>

theorem ready_only_when_stable_and_tall:
  "(fst (is_ready_for_capture p t pb) = Inr (True, z) \<longrightarrow>
       z = 1
       \<and> stability (snd (is_ready_for_capture p t pb)) (track_id t) = stability p (track_id t) + 1
       \<and> stability_frames p \<le> stability (snd (is_ready_for_capture p t pb)) (track_id t)
       \<and> target_plate_height p \<le> height pb)
   \<and> height (estimate_plate_region car1) = 60
   \<and> fst (capture_call proposer0 car1) = Inr (False, 1)
   \<and> fst (capture_call proposer1 car1) = Inr (False, 1)
   \<and> fst (capture_call proposer2 car1) = Inr (True, 1)
   \<and> fst (capture_call proposer3 car1) = Inr (True, 1)"
proof -
  have "z = 1
       \<and> stability (snd (is_ready_for_capture p t pb)) (track_id t) = stability p (track_id t) + 1
       \<and> stability_frames p \<le> stability (snd (is_ready_for_capture p t pb)) (track_id t)
       \<and> target_plate_height p \<le> height pb"
    if "fst (is_ready_for_capture p t pb) = Inr (True, z)"
    using that
    by (auto simp: is_ready_for_capture_def Let_def stability_def split: if_splits)
  with car1_plate_height capture_scenario show ?thesis by blast
qed

theorem ready_only_when_stable_and_tall_witness:
  "fst (is_ready_for_capture proposer2 car1 (estimate_plate_region car1)) = Inr (True, 1)
   \<and> stability (snd (is_ready_for_capture proposer2 car1 (estimate_plate_region car1)))
        (track_id car1) = stability proposer2 (track_id car1) + 1
   \<and> stability_frames proposer2
        \<le> stability (snd (is_ready_for_capture proposer2 car1 (estimate_plate_region car1)))
             (track_id car1)
   \<and> target_plate_height proposer2 \<le> height (estimate_plate_region car1)"
proof -
  have h: "fst (is_ready_for_capture proposer2 car1 (estimate_plate_region car1)) = Inr (True, 1)"
    using capture_scenario(3) by (simp add: capture_call_def)
  from ready_only_when_stable_and_tall [of proposer2 car1 "estimate_plate_region car1" 1] h
  show ?thesis by blast
qed

text \<open>
  C3 (as amended). A call to \<open>is_ready_for_capture\<close> whose plate height is at least
  \<open>min_plate_height\<close> increments the target's counter by one; a call with a smaller plate
  height leaves the proposer unchanged. No call changes the counter of any other id.
  \<open>reset_stability(id)\<close> puts the counter of \<open>id\<close> back to zero and changes no other. In the
  main loop a change of target resets the new target's counter before the call, so that the
  counter is 1 after the first call for a new target with a large enough plate.
\<close>

theorem stability_counter_updates:
  "(min_plate_height p \<le> height pb \<longrightarrow>
      stability (snd (is_ready_for_capture p t pb)) (track_id t) = stability p (track_id t) + 1)
   \<and> (height pb < min_plate_height p \<longrightarrow> snd (is_ready_for_capture p t pb) = p)
   \<and> (\<forall>k. k \<noteq> track_id t \<longrightarrow>
         stable_tracks (snd (is_ready_for_capture p t pb)) k = stable_tracks p k)
   \<and> stability (reset_stability p k') k' = 0
   \<and> (\<forall>k. k \<noteq> k' \<longrightarrow> stable_tracks (reset_stability p k') k = stable_tracks p k)
   \<and> (cur \<noteq> Some (track_id t) \<and> min_plate_height p \<le> height (estimate_plate_region t) \<longrightarrow>
         stability (snd (snd (main_target_step cur t p))) (track_id t) = 1)"
  by (auto simp: is_ready_for_capture_def main_target_step_def reset_stability_def Let_def
      stability_def)

theorem stability_counter_updates_witness:
  "min_plate_height proposer2 \<le> height (estimate_plate_region car1)
   \<and> stability (snd (is_ready_for_capture proposer2 car1 (estimate_plate_region car1)))
        (track_id car1) = stability proposer2 (track_id car1) + 1
   \<and> height small_plate < min_plate_height proposer2
   \<and> snd (is_ready_for_capture proposer2 car1 small_plate) = proposer2
   \<and> stability (snd (snd (main_target_step None car1 proposer2))) (track_id car1) = 1"
proof -
  have a: "min_plate_height proposer2 \<le> height (estimate_plate_region car1)"
    by (simp add: car1_plate_height proposer2_eval proposer0_def PlateProposer_init_def)
  have b: "height small_plate < min_plate_height proposer2"
    by (simp add: small_plate_def BoundingBox_init_def height_def proposer2_eval proposer0_def
        PlateProposer_init_def)
  have c: "None \<noteq> Some (track_id car1)" by simp
  from stability_counter_updates [of proposer2 "estimate_plate_region car1" car1 0 None] a c
  have 1: "stability (snd (is_ready_for_capture proposer2 car1 (estimate_plate_region car1)))
        (track_id car1) = stability proposer2 (track_id car1) + 1"
    and 2: "stability (snd (snd (main_target_step None car1 proposer2))) (track_id car1) = 1"
    by blast+
  from stability_counter_updates [of proposer2 small_plate car1 0 None] b
  have 3: "snd (is_ready_for_capture proposer2 car1 small_plate) = proposer2"
    by blast
  from a b 1 2 3 show ?thesis by blast
qed

text \<open>
  C3 as stated fails: with the counter of track 1 at 2, a call for another target (track 2)
  leaves it at 2 instead of zeroing it, and a call for track 1 itself with a plate lower than
  \<open>min_plate_height\<close> leaves it at 2 instead of incrementing it.
\<close>

theorem stability_counter_counterexample:
  "track_id car1 = 1 \<and> track_id car2 = 2
   \<and> stability proposer2 1 = 2
   \<and> stability (snd (capture_call proposer2 car2)) 1 = 2
   \<and> stability (snd (is_ready_for_capture proposer2 car1 small_plate)) 1 = 2"
  by (simp add: proposer2_eval proposer0_def car1_def car2_def small_plate_def proposer_eval)

section \<open>PTZ controller: properties\<close>

lemmas ptz_eval =
  point_to_target_def within_hysteresis_def relative_move_def send_command_def check_rate_limit_def
  mark_activity_def PTZController_init_def PTZClient_init_def env_at_def idle_manager_def Let_def

lemma controller1_eval:
  "fst (point_to_target (env_at 1000) 1000 640 360 1280 720 controller0) = Inr True"
  "last_target_position controller1 = Some (640, 360)"
  "hysteresis_pixels controller1 = 50"
  "pan_speed controller1 = 1 / 2"
  "last_move_time (ptz controller1) = 1000"
  "move_rate_limit_s (ptz controller1) = 2"
  "device_log (ptz controller1) = [(RelativeMove 0 0 0 (1 / 2), Accepted)]"
  by (simp_all add: controller1_def controller0_def ptz_eval)

text \<open>
  C6. With a recorded last target position and the target within \<open>hysteresis_pixels\<close> of it on
  both axes, \<open>point_to_target\<close> returns false and changes nothing (no device command). With a
  recorded position and the target outside that zone, on a frame of nonzero width and height,
  its result is that of one \<open>relative_move\<close> call with
  \<open>pan = (tx - W/2)/W\<close>, \<open>tilt = -(ty - H/2)/H\<close>, \<open>zoom = 0\<close> and \<open>speed = pan_speed\<close>, and
  when the rate limit lets that call through the command reaches the device.
\<close>

theorem point_to_target_hysteresis:
  "(last_target_position k = Some (last_x, last_y)
      \<and> \<bar>target_x - last_x\<bar> < hysteresis_pixels k \<and> \<bar>target_y - last_y\<bar> < hysteresis_pixels k
     \<longrightarrow> point_to_target e t_mark target_x target_y frame_width frame_height k = (Inr False, k))
   \<and> (last_target_position k = Some (last_x, last_y)
      \<and> \<not> (\<bar>target_x - last_x\<bar> < hysteresis_pixels k \<and> \<bar>target_y - last_y\<bar> < hysteresis_pixels k)
      \<and> frame_width \<noteq> 0 \<and> frame_height \<noteq> 0
     \<longrightarrow> (let pan_offset = (target_x - real_of_int frame_width / 2) / real_of_int frame_width;
              tilt_offset = - (target_y - real_of_int frame_height / 2) / real_of_int frame_height;
              r = relative_move e pan_offset tilt_offset 0 (pan_speed k) (ptz k);
              res = point_to_target e t_mark target_x target_y frame_width frame_height k
          in fst res = Inr (fst r) \<and> ptz (snd res) = snd r
             \<and> (check_rate_limit (t_check e) (ptz k) \<longrightarrow>
                  device_log (ptz (snd res)) =
                    device_log (ptz k) @ [(RelativeMove (max (-1) (min 1 pan_offset))
                                             (max (-1) (min 1 tilt_offset)) 0 (pan_speed k),
                                           reply e)])))"
  by (cases "reply e")
     (simp_all add: point_to_target_def within_hysteresis_def relative_move_def
        send_command_def Let_def)

theorem point_to_target_hysteresis_witness:
  "last_target_position controller1 = Some (640, 360)
   \<and> point_to_target (env_at 1003) 1003 660 370 1280 720 controller1 = (Inr False, controller1)
   \<and> fst (point_to_target (env_at 1003) 1003 800 360 1280 720 controller1)
       = Inr (fst (relative_move (env_at 1003) (1 / 8) 0 0 (1 / 2) (ptz controller1)))
   \<and> fst (relative_move (env_at 1003) (1 / 8) 0 0 (1 / 2) (ptz controller1)) = True"
proof -
  note lt = controller1_eval(2)
  have inside: "\<bar>660 - 640\<bar> < hysteresis_pixels controller1 \<and> \<bar>370 - 360\<bar> < hysteresis_pixels controller1"
    by (simp add: controller1_eval)
  have outside: "\<not> (\<bar>800 - 640\<bar> < hysteresis_pixels controller1 \<and> \<bar>360 - 360\<bar> < hysteresis_pixels controller1)"
    by (simp add: controller1_eval)
  have dims: "(1280::int) \<noteq> 0 \<and> (720::int) \<noteq> 0" by simp
  from point_to_target_hysteresis
         [of controller1 640 360 660 370 "env_at 1003" 1003 1280 720] lt inside
  have 1: "point_to_target (env_at 1003) 1003 660 370 1280 720 controller1 = (Inr False, controller1)"
    by blast
  from point_to_target_hysteresis
         [of controller1 640 360 800 360 "env_at 1003" 1003 1280 720] lt outside dims
  have 2: "fst (point_to_target (env_at 1003) 1003 800 360 1280 720 controller1)
       = Inr (fst (relative_move (env_at 1003) (1 / 8) 0 0 (1 / 2) (ptz controller1)))"
    by (simp add: Let_def controller1_eval)
  have 3: "fst (relative_move (env_at 1003) (1 / 8) 0 0 (1 / 2) (ptz controller1)) = True"
    by (simp add: relative_move_def send_command_def check_rate_limit_def env_at_def
        controller1_eval Let_def)
  from lt 1 2 3 show ?thesis by blast
qed

text \<open>
  C7. A \<open>relative_move\<close> call whose clock reading is less than \<open>move_rate_limit_s\<close> after
  \<open>last_move_time\<close> (the time of the last accepted motion command) returns false and leaves
  the client as it was: no device command, \<open>last_move_time\<close> unchanged. A \<open>zoom_to_target\<close>
  call in that situation returns false and leaves the controller, and so \<open>current_zoom\<close>,
  unchanged.
\<close>

theorem rate_limited_move_refused:
  assumes "t_check e - last_move_time (ptz k) < move_rate_limit_s (ptz k)"
  shows "relative_move e pan tilt zoom speed (ptz k) = (False, ptz k)
       \<and> device_log (snd (relative_move e pan tilt zoom speed (ptz k))) = device_log (ptz k)
       \<and> last_move_time (snd (relative_move e pan tilt zoom speed (ptz k))) = last_move_time (ptz k)
       \<and> zoom_to_target e t_mark target_height desired_height k = (False, k)
       \<and> current_zoom (snd (zoom_to_target e t_mark target_height desired_height k)) = current_zoom k"
  using assms
  by (simp add: zoom_to_target_def relative_move_def check_rate_limit_def Let_def)

theorem rate_limited_move_refused_witness:
  "t_check (env_at 1001) - last_move_time (ptz controller1) < move_rate_limit_s (ptz controller1)
   \<and> relative_move (env_at 1001) 0 0 (1 / 10) (3 / 10) (ptz controller1) = (False, ptz controller1)
   \<and> zoom_to_target (env_at 1001) 1001 30 60 controller1 = (False, controller1)"
proof -
  have h: "t_check (env_at 1001) - last_move_time (ptz controller1) < move_rate_limit_s (ptz controller1)"
    by (simp add: env_at_def controller1_eval)
  from rate_limited_move_refused [OF h] h show ?thesis by blast
qed

text \<open>
  C8 (the code departs from it). With idle return enabled, timeout 1 s, default preset 2 among
  the presets, no activity for 1.2 s and the idle flag false, one tick of the idle monitor
  sends exactly one goto-preset, for token 2, and the device accepts it; but the flag the tick
  has just set is false again when the tick ends, because \<open>goto_preset_by_id\<close> calls
  \<open>mark_activity\<close> on success. With still no point, zoom or goto command from outside, a
  tick 2.2 s later finds the timeout exceeded and the flag false again, and sends the same
  goto-preset a second time.
\<close>

theorem idle_return_clears_idle_flag:
  "idle_timeout_s idle_manager < current_time idle_tick_env - last_activity_time idle_manager
   \<and> is_idle idle_manager = False
   \<and> device_log (snd after_first_tick) = [(GotoPreset ''2'', Accepted)]
   \<and> is_idle (fst after_first_tick) = False
   \<and> last_activity_time (fst after_first_tick) = 1001 + 3 / 10
   \<and> device_log (snd after_second_tick)
       = [(GotoPreset ''2'', Accepted), (GotoPreset ''2'', Accepted)]
   \<and> is_idle (fst after_second_tick) = False"
proof -
  have s: "str_int 2 = ''2''"
    by (simp add: str_int_def str_nat.simps digit_char_def)
  have first: "after_first_tick =
      (idle_manager\<lparr> last_activity_time := 1001 + 3 / 10 \<rparr>,
       \<lparr> last_move_time = 1001 + 3 / 10, move_rate_limit_s = 2,
         device_log = [(GotoPreset ''2'', Accepted)] \<rparr>)"
    by (simp add: after_first_tick_def idle_monitor_tick_def idle_manager_def idle_tick_env_def
        PTZClient_init_def two_presets_def goto_preset_by_id_def goto_preset_def
        send_command_def check_rate_limit_def mark_activity_def s Let_def)
  have second: "after_second_tick =
      (idle_manager\<lparr> last_activity_time := 1003 + 5 / 10 \<rparr>,
       \<lparr> last_move_time = 1003 + 5 / 10, move_rate_limit_s = 2,
         device_log = [(GotoPreset ''2'', Accepted), (GotoPreset ''2'', Accepted)] \<rparr>)"
    by (simp add: after_second_tick_def first idle_monitor_tick_def idle_manager_def
        idle_tick_env2_def two_presets_def goto_preset_by_id_def goto_preset_def
        send_command_def check_rate_limit_def mark_activity_def s Let_def)
  show ?thesis
    by (simp add: first second) (simp add: idle_manager_def idle_tick_env_def)
qed

text \<open>
  C10. A controller as constructed has no last target position, and on a frame of nonzero
  width and height its \<open>point_to_target\<close> skips the hysteresis check for any target: the result
  is that of one \<open>relative_move\<close> call with the pan and tilt offsets of the target, and when the
  rate limit lets the call through the command reaches the device. For a target exactly at the
  frame centre both offsets are 0.
\<close>

theorem first_point_bypasses_hysteresis:
  assumes "frame_width \<noteq> 0" and "frame_height \<noteq> 0"
  shows "(let k = PTZController_init c pm hyst ps ts zs;
              pan_offset = (target_x - real_of_int frame_width / 2) / real_of_int frame_width;
              tilt_offset = - (target_y - real_of_int frame_height / 2) / real_of_int frame_height;
              r = relative_move e pan_offset tilt_offset 0 ps c;
              res = point_to_target e t_mark target_x target_y frame_width frame_height k
          in last_target_position k = None
             \<and> fst res = Inr (fst r) \<and> ptz (snd res) = snd r
             \<and> (check_rate_limit (t_check e) c \<longrightarrow>
                  device_log (ptz (snd res)) =
                    device_log c @ [(RelativeMove (max (-1) (min 1 pan_offset))
                                       (max (-1) (min 1 tilt_offset)) 0 ps, reply e)])
             \<and> (target_x = real_of_int frame_width / 2 \<and> target_y = real_of_int frame_height / 2
                  \<longrightarrow> pan_offset = 0 \<and> tilt_offset = 0))"
  using assms
  by (cases "reply e")
     (simp_all add: point_to_target_def within_hysteresis_def PTZController_init_def Let_def
        relative_move_def send_command_def)

theorem first_point_bypasses_hysteresis_witness:
  "last_target_position controller0 = None
   \<and> check_rate_limit (t_check (env_at 1000)) PTZClient_init
   \<and> fst (point_to_target (env_at 1000) 1000 640 360 1280 720 controller0) = Inr True
   \<and> device_log (ptz (snd (point_to_target (env_at 1000) 1000 640 360 1280 720 controller0)))
       = [(RelativeMove 0 0 0 (1 / 2), Accepted)]"
proof -
  have rl: "check_rate_limit (t_check (env_at 1000)) PTZClient_init"
    by (simp add: check_rate_limit_def env_at_def PTZClient_init_def)
  have r: "fst (relative_move (env_at 1000) 0 0 0 (1 / 2) PTZClient_init) = True"
    by (simp add: relative_move_def send_command_def check_rate_limit_def env_at_def
        PTZClient_init_def)
  from first_point_bypasses_hysteresis
         [of 1280 720 PTZClient_init idle_manager 50 "1 / 2" "1 / 2" "1 / 10" 640 360
             "env_at 1000" 1000] rl r
  show ?thesis
    by (simp add: Let_def controller0_def env_at_def PTZClient_init_def relative_move_def
        send_command_def check_rate_limit_def)
qed

section \<open>Bounding box: the round trip through centre and size\<close>

lemma bit_length_bound: "m < 2 ^ k \<Longrightarrow> bit_length m \<le> k"
proof (induction k arbitrary: m)
  case 0
  then show ?case by (simp add: bit_length.simps)
next
  case (Suc k)
  then have "m div 2 < 2 ^ k" by simp
  from Suc.IH [OF this] show ?case
    by (subst bit_length.simps) simp
qed

lemma bit_length_eq: "2 ^ k \<le> m \<Longrightarrow> m < 2 ^ Suc k \<Longrightarrow> bit_length m = Suc k"
proof (induction k arbitrary: m)
  case 0
  then have "m = 1" by simp
  then show ?case by (simp add: bit_length.simps)
next
  case (Suc k)
  then have "2 ^ k \<le> m div 2" "m div 2 < 2 ^ Suc k" by simp_all
  from Suc.IH [OF this] Suc.prems show ?case
    by (subst bit_length.simps) simp
qed

lemma aligned_value:
  assumes "e \<le> snd x"
  shows "real_of_int (aligned x e) * 2 powi e = float_value x"
proof -
  have a: "(2::real) ^ nat (snd x - e) = 2 powi (snd x - e)"
    using assms by (simp add: power_int_def)
  have b: "(2::real) powi (snd x - e) * 2 powi e = 2 powi (snd x - e + e)"
    by (rule power_int_add [symmetric]) simp
  have "real_of_int (aligned x e) * 2 powi e
          = real_of_int (fst x) * ((2::real) ^ nat (snd x - e) * 2 powi e)"
    unfolding aligned_def by simp
  also have "\<dots> = real_of_int (fst x) * 2 powi (snd x - e + e)"
    by (simp only: a b)
  also have "\<dots> = float_value x"
    unfolding float_value_def by simp
  finally show ?thesis .
qed

lemma float_eq_value: "float_eq x y \<longleftrightarrow> float_value x = float_value y"
proof -
  let ?e = "min (snd x) (snd y)"
  have "float_value x = real_of_int (aligned x ?e) * 2 powi ?e"
    and "float_value y = real_of_int (aligned y ?e) * 2 powi ?e"
    by (simp_all add: aligned_value)
  then show ?thesis
    by (simp add: float_eq_def Let_def)
qed

lemma fl_round_exact: "\<bar>m\<bar> < 2 ^ 53 \<Longrightarrow> fl_round (m, e) = (m, e)"
  using bit_length_bound [of "\<bar>m\<bar>" 53] by (simp add: fl_round_def Let_def)

lemma grid_roundtrip:
  assumes "\<bar>a\<bar> \<le> 2 ^ 51" "\<bar>c\<bar> \<le> 2 ^ 51"
  shows "float_eq (float_sub (float_half (float_add (a, 0) (c, 0))) (float_half (float_sub (c, 0) (a, 0)))) (a, 0)"
    and "float_eq (float_add (float_half (float_add (a, 0) (c, 0))) (float_half (float_sub (c, 0) (a, 0)))) (c, 0)"
proof -
  have s: "\<bar>a + c\<bar> < 2 ^ 53" "\<bar>c - a\<bar> < 2 ^ 53" "\<bar>2 * a\<bar> < 2 ^ 53" "\<bar>2 * c\<bar> < 2 ^ 53"
    using assms by simp_all
  have add: "float_add (a, 0) (c, 0) = (a + c, 0)"
    by (simp add: float_add_def aligned_def fl_round_exact [OF s(1)])
  have sub: "float_sub (c, 0) (a, 0) = (c - a, 0)"
    by (simp add: float_sub_def aligned_def fl_round_exact [OF s(2)])
  have lo: "float_sub (a + c, -1) (c - a, -1) = (2 * a, -1)"
    by (simp add: float_sub_def aligned_def fl_round_exact [OF s(3)])
  have hi: "float_add (a + c, -1) (c - a, -1) = (2 * c, -1)"
    by (simp add: float_add_def aligned_def fl_round_exact [OF s(4)])
  show "float_eq (float_sub (float_half (float_add (a, 0) (c, 0))) (float_half (float_sub (c, 0) (a, 0)))) (a, 0)"
    by (simp add: add sub float_half_def lo) (simp add: float_eq_def aligned_def)
  show "float_eq (float_add (float_half (float_add (a, 0) (c, 0))) (float_half (float_sub (c, 0) (a, 0)))) (c, 0)"
    by (simp add: add sub float_half_def hi) (simp add: float_eq_def aligned_def)
qed

lemma tenth_steps:
  "float_add (3602879701896397, -55) (5404319552844595, -54) = (7205759403792794, -54)"
  "float_sub (5404319552844595, -54) (3602879701896397, -55) = (7205759403792793, -55)"
  "float_sub (7205759403792794, -55) (7205759403792793, -56) = (7205759403792795, -56)"
  "\<not> float_eq (7205759403792795, -56) (3602879701896397, -55)"
proof -
  have b54: "bit_length 14411518807585587 = 54"
    using bit_length_eq [of 53 14411518807585587] by simp
  show "float_add (3602879701896397, -55) (5404319552844595, -54) = (7205759403792794, -54)"
    by (simp add: float_add_def aligned_def fl_round_def b54 round_shift_def Let_def)
  show "float_sub (5404319552844595, -54) (3602879701896397, -55) = (7205759403792793, -55)"
    by (simp add: float_sub_def aligned_def fl_round_exact)
  show "float_sub (7205759403792794, -55) (7205759403792793, -56) = (7205759403792795, -56)"
    by (simp add: float_sub_def aligned_def fl_round_exact)
  show "\<not> float_eq (7205759403792795, -56) (3602879701896397, -55)"
    by (simp add: float_eq_def aligned_def)
qed

lemma box_from_center_exact:
  "\<lparr> x1 = fst (center b) - width b / 2, y1 = snd (center b) - height b / 2,
     x2 = fst (center b) + width b / 2, y2 = snd (center b) + height b / 2 \<rparr> = b"
  by (cases b) (simp add: center_def width_def height_def field_simps)

text \<open>
  C9 (as amended). Rebuilding a box from its centre, width and height by
  \<open>(cx - w/2, cy - h/2, cx + w/2, cy + h/2)\<close> gives the original box in exact arithmetic, and
  also in the float arithmetic of the source when the four coordinates are integers of
  magnitude at most \<open>2^51\<close>, as boxes on the pixel grid are.
\<close>

theorem box_round_trip:
  "\<lparr> x1 = fst (center b) - width b / 2, y1 = snd (center b) - height b / 2,
     x2 = fst (center b) + width b / 2, y2 = snd (center b) + height b / 2 \<rparr> = b
   \<and> (fx1 fb = (a, 0) \<and> fx2 fb = (c, 0) \<and> fy1 fb = (p, 0) \<and> fy2 fb = (q, 0)
        \<and> \<bar>a\<bar> \<le> 2 ^ 51 \<and> \<bar>c\<bar> \<le> 2 ^ 51 \<and> \<bar>p\<bar> \<le> 2 ^ 51 \<and> \<bar>q\<bar> \<le> 2 ^ 51
      \<longrightarrow> float_eq (float_sub (fst (float_center fb)) (float_half (float_width fb))) (fx1 fb)
          \<and> float_eq (float_sub (snd (float_center fb)) (float_half (float_height fb))) (fy1 fb)
          \<and> float_eq (float_add (fst (float_center fb)) (float_half (float_width fb))) (fx2 fb)
          \<and> float_eq (float_add (snd (float_center fb)) (float_half (float_height fb))) (fy2 fb))"
  using box_from_center_exact [of b] grid_roundtrip [of a c] grid_roundtrip [of p q]
  by (simp add: float_center_def float_width_def float_height_def)

theorem box_round_trip_witness:
  "float_eq (float_sub (fst (float_center grid_box)) (float_half (float_width grid_box))) (fx1 grid_box)
   \<and> float_eq (float_sub (snd (float_center grid_box)) (float_half (float_height grid_box))) (fy1 grid_box)
   \<and> float_eq (float_add (fst (float_center grid_box)) (float_half (float_width grid_box))) (fx2 grid_box)
   \<and> float_eq (float_add (snd (float_center grid_box)) (float_half (float_height grid_box))) (fy2 grid_box)"
proof -
  have h: "fx1 grid_box = (100, 0) \<and> fx2 grid_box = (300, 0)
        \<and> fy1 grid_box = (100, 0) \<and> fy2 grid_box = (300, 0)
        \<and> \<bar>100 :: int\<bar> \<le> 2 ^ 51 \<and> \<bar>300 :: int\<bar> \<le> 2 ^ 51
        \<and> \<bar>100 :: int\<bar> \<le> 2 ^ 51 \<and> \<bar>300 :: int\<bar> \<le> 2 ^ 51"
    by (simp add: grid_box_def)
  from box_round_trip [of "BoundingBox_init 0 0 1 1" grid_box 100 300 100 300] h
  show ?thesis by blast
qed

text \<open>
  C9 as stated fails in the float arithmetic of the source: for \<open>x1 = 0.1\<close>, \<open>x2 = 0.3\<close> the
  rebuilt left edge \<open>cx - w/2\<close> is \<open>7205759403792795 * 2^-56 = 0.10000000000000002\<close>, which is
  not \<open>x1\<close>.
\<close>

theorem box_round_trip_counterexample:
  "float_sub (fst (float_center tenth_box)) (float_half (float_width tenth_box))
     = (7205759403792795, -56)
   \<and> \<not> float_eq (float_sub (fst (float_center tenth_box)) (float_half (float_width tenth_box)))
          (fx1 tenth_box)"
  by (simp add: tenth_box_def float_center_def float_width_def float_half_def tenth_steps)

end
